theory Spec2Isabelle
  imports Main
begin

section \<open>Python values of \<open>mws/utils/parsers.py\<close>\<close>

text \<open>
  A Python \<open>str\<close> is a \<open>string\<close>, one \<open>char\<close> per code point; the code points are
  those of the range 0..255, which is what decoding bytes under iso-8859-1 produces.
  A Python \<open>bytes\<close> object is a \<open>string\<close> as well, one \<open>char\<close> per byte. Where the
  source tells the two types apart, the model tags them (\<open>content\<close> below).

  A \<open>dict\<close> keeps its keys in insertion order: it is an association list with at most
  one entry per key. \<open>DotDict\<close> is a \<open>dict\<close> subclass, so a \<open>DotDict\<close> is such a list
  of keys and values, and the values the parser stores are strings, \<open>DotDict\<close>s and
  Python lists.
\<close>

datatype val =
    Str string
  | Node "(string \<times> val) list"
  | Seq "val list"

type_synonym dotdict = "(string \<times> val) list"

datatype error =
    KeyError string
  | AttributeError string
  | TypeError string
  | ParseError string
  | IndexError string
  | UnicodeDecodeError string
  | MWSError string

subsection \<open>The operations of \<open>dict\<close> that \<open>DotDict\<close> inherits\<close>

definition dict_contains :: "dotdict \<Rightarrow> string \<Rightarrow> bool" where
  "dict_contains d key = (map_of d key \<noteq> None)"

definition dict_len :: "dotdict \<Rightarrow> nat" where
  "dict_len d = length d"

definition dict_getitem :: "dotdict \<Rightarrow> string \<Rightarrow> error + val" where
  "dict_getitem d key = (case map_of d key of None \<Rightarrow> Inl (KeyError key) | Some v \<Rightarrow> Inr v)"

text \<open>\<open>d[key] = v\<close>: an existing key keeps its position, a new key goes last.\<close>

fun dict_setitem :: "dotdict \<Rightarrow> string \<Rightarrow> val \<Rightarrow> dotdict" where
  "dict_setitem [] key v = [(key, v)]"
| "dict_setitem ((k, w) # d) key v =
     (if k = key then (key, v) # d else (k, w) # dict_setitem d key v)"

text \<open>\<open>d.pop(key)\<close>, for a key that is present: the dictionary without the key.\<close>

definition dict_pop :: "dotdict \<Rightarrow> string \<Rightarrow> dotdict" where
  "dict_pop d key = filter (\<lambda>(k, w). k \<noteq> key) d"

subsection \<open>\<open>DotDict\<close>\<close>

text \<open>
  \<^verbatim>\<open>
  def _value_or_node(self, node):
      if isinstance(node, self.__class__) and "value" in node and len(node) == 1:
          return node["value"]
      return node

  def __getitem__(self, key):
      node = super().__getitem__(key)
      return self._value_or_node(node)
  \<close>
  \<open>node["value"]\<close> is \<open>DotDict.__getitem__\<close> again, on \<open>node\<close>: the plain lookup of
  \<open>"value"\<close> followed by \<open>_value_or_node\<close> on what it finds. The membership test and
  that lookup are one \<open>case\<close> here.
\<close>

lemma map_of_size_val:
  "map_of d key = Some v \<Longrightarrow> size v < Suc (size_list (size_prod (\<lambda>_. 0) size) d)"
  by (induction d) (auto split: if_splits)

function value_or_node :: "val \<Rightarrow> val" where
  "value_or_node (Node d) =
     (case map_of d ''value'' of
        Some v \<Rightarrow> if dict_len d = 1 then value_or_node v else Node d
      | None \<Rightarrow> Node d)"
| "value_or_node (Str s) = Str s"
| "value_or_node (Seq xs) = Seq xs"
  by pat_completeness auto
termination
  by (relation "measure size") (auto dest: map_of_size_val)

definition DotDict_getitem :: "dotdict \<Rightarrow> string \<Rightarrow> error + val" where
  "DotDict_getitem self key =
     (case dict_getitem self key of
        Inl e \<Rightarrow> Inl e
      | Inr node \<Rightarrow> Inr (value_or_node node))"

text \<open>
  \<^verbatim>\<open>
  def __getattr__(self, item):
      return self.__getitem__(item)

  def __setattr__(self, item, value):
      self.__setitem__(item, value)
  \<close>
  Python calls \<open>__setattr__\<close> for every attribute that is set, and \<open>__getattr__\<close> only
  for a name that the normal lookup does not find: \<open>DotDict_getattr\<close> is the method, and
  it is what reading an attribute does only for a name that is no attribute of \<open>dict\<close> or
  \<open>DotDict\<close> (for \<open>keys\<close>, \<open>items\<close> or \<open>get\<close> the lookup returns the method of the
  class). It is used below for the name \<open>append\<close>, which is none.
\<close>

definition DotDict_getattr :: "dotdict \<Rightarrow> string \<Rightarrow> error + val" where
  "DotDict_getattr self item = DotDict_getitem self item"

definition DotDict_setattr :: "dotdict \<Rightarrow> string \<Rightarrow> val \<Rightarrow> dotdict" where
  "DotDict_setattr self item v = dict_setitem self item v"

text \<open>
  \<^verbatim>\<open>
  def get(self, key, default=None):
      try:
          return self.__getitem__(key)
      except KeyError:
          return default
  \<close>
\<close>

definition DotDict_get :: "dotdict \<Rightarrow> string \<Rightarrow> val \<Rightarrow> val" where
  "DotDict_get self key dflt =
     (case DotDict_getitem self key of
        Inr v \<Rightarrow> v
      | Inl e \<Rightarrow> dflt)"

text \<open>
  \<^verbatim>\<open>
  def __iter__(self):
      if not isinstance(self, list):
          return iter([self])
      return self
  \<close>
  The result is the list of the items the iterator yields. \<open>self\<close> is no iterator, so
  \<open>iter\<close> would refuse what the last line returns.
\<close>

fun isinstance_list :: "val \<Rightarrow> bool" where
  "isinstance_list (Seq xs) = True"
| "isinstance_list (Node d) = False"
| "isinstance_list (Str s) = False"

definition DotDict_iter :: "val \<Rightarrow> error + val list" where
  "DotDict_iter self =
     (if \<not> isinstance_list self then Inr [self]
      else Inl (TypeError ''iter() returned non-iterator''))"

section \<open>The XML parser\<close>

subsection \<open>Text helpers\<close>

text \<open>
  \<open>str.strip()\<close> removes the white space of both ends; in the range 0..255 the white
  space of a Python \<open>str\<close> is 0x09-0x0D, 0x1C-0x20, 0x85 and 0xA0.
\<close>

definition isspace :: "char \<Rightarrow> bool" where
  "isspace c =
     (let n = (of_char c :: nat)
      in (9 \<le> n \<and> n \<le> 13) \<or> (28 \<le> n \<and> n \<le> 32) \<or> n = 133 \<or> n = 160)"

definition strip :: "string \<Rightarrow> string" where
  "strip s = rev (dropWhile isspace (rev (dropWhile isspace s)))"

text \<open>\<open>strip_prefix p s\<close>: what follows \<open>p\<close> in \<open>s\<close>, when \<open>s\<close> starts with \<open>p\<close>.\<close>

fun strip_prefix :: "string \<Rightarrow> string \<Rightarrow> string option" where
  "strip_prefix [] s = Some s"
| "strip_prefix (p # ps) [] = None"
| "strip_prefix (p # ps) (c # cs) = (if p = c then strip_prefix ps cs else None)"

text \<open>\<open>rsplit c s\<close>: \<open>s\<close> around its last \<open>c\<close>.\<close>

fun rsplit :: "char \<Rightarrow> string \<Rightarrow> (string \<times> string) option" where
  "rsplit c [] = None"
| "rsplit c (x # xs) =
     (case rsplit c xs of
        Some (a, b) \<Rightarrow> Some (x # a, b)
      | None \<Rightarrow> if x = c then Some ([], xs) else None)"

subsection \<open>\<open>remove_xml_namespace\<close>\<close>

text \<open>
  \<^verbatim>\<open>
  def remove_xml_namespace(xml):
      regex = re.compile(' xmlns(:ns2)?="[^"]+"|(ns2:)|(xml:)')
      return regex.sub("", xml)
  \<close>
  A match function gives what follows the match. \<open>[^"]+\<close> is greedy and a quote must
  follow it, so it runs to the first quote, and it needs one character at least.
  The optional \<open>:ns2\<close> is tried first and given back when the rest fails with it.
\<close>

definition quote :: char where
  "quote = CHR 0x22"

definition match_quoted :: "string \<Rightarrow> string option" where
  "match_quoted s =
     (case strip_prefix [CHR ''='', quote] s of
        None \<Rightarrow> None
      | Some body \<Rightarrow>
          (let v = takeWhile (\<lambda>c. c \<noteq> quote) body;
               r = dropWhile (\<lambda>c. c \<noteq> quote) body
           in if v = [] \<or> r = [] then None else Some (tl r)))"

definition match_xmlns :: "string \<Rightarrow> string option" where
  "match_xmlns s =
     (case strip_prefix '' xmlns'' s of
        None \<Rightarrow> None
      | Some r \<Rightarrow>
          (case (case strip_prefix '':ns2'' r of
                   Some r1 \<Rightarrow> match_quoted r1
                 | None \<Rightarrow> None) of
             Some rest \<Rightarrow> Some rest
           | None \<Rightarrow> match_quoted r))"

definition match_namespace :: "string \<Rightarrow> string option" where
  "match_namespace s =
     (case match_xmlns s of
        Some rest \<Rightarrow> Some rest
      | None \<Rightarrow>
          (case strip_prefix ''ns2:'' s of
             Some rest \<Rightarrow> Some rest
           | None \<Rightarrow> strip_prefix ''xml:'' s))"

lemma strip_prefix_length:
  "strip_prefix p s = Some r \<Longrightarrow> length s = length p + length r"
  by (induction p s rule: strip_prefix.induct) (auto split: if_splits)

lemma match_quoted_length: "match_quoted s = Some r \<Longrightarrow> length r < length s"
proof -
  assume m: "match_quoted s = Some r"
  then obtain body where b: "strip_prefix [CHR ''='', quote] s = Some body"
    by (auto simp: match_quoted_def split: option.splits)
  from m b have "dropWhile (\<lambda>c. c \<noteq> quote) body \<noteq> []"
    and r: "r = tl (dropWhile (\<lambda>c. c \<noteq> quote) body)"
    by (auto simp: match_quoted_def Let_def split: if_splits)
  then have "length r < length (dropWhile (\<lambda>c. c \<noteq> quote) body)"
    by (cases "dropWhile (\<lambda>c. c \<noteq> quote) body") auto
  also have "\<dots> \<le> length body"
    by (rule length_dropWhile_le)
  also have "\<dots> \<le> length s"
    using strip_prefix_length [OF b] by simp
  finally show ?thesis .
qed

lemma match_xmlns_length: "match_xmlns s = Some r \<Longrightarrow> length r < length s"
  by (auto simp: match_xmlns_def split: option.splits
      dest!: strip_prefix_length match_quoted_length)

lemma match_namespace_length: "match_namespace s = Some r \<Longrightarrow> length r < length s"
  by (auto simp: match_namespace_def split: option.splits
      dest!: strip_prefix_length match_xmlns_length)

text \<open>\<open>regex.sub("", xml)\<close>: the matches are found from left to right and dropped.\<close>

function remove_xml_namespace :: "string \<Rightarrow> string" where
  "remove_xml_namespace [] = []"
| "remove_xml_namespace (c # cs) =
     (case match_namespace (c # cs) of
        Some rest \<Rightarrow> remove_xml_namespace rest
      | None \<Rightarrow> c # remove_xml_namespace cs)"
  by pat_completeness auto
termination
  by (relation "measure length") (auto dest: match_namespace_length)

subsection \<open>\<open>XML2Dict._namespace_split\<close>\<close>

text \<open>
  \<^verbatim>\<open>
  def _namespace_split(self, tag, value):
      result = re.compile(r"\{(.*)\}(.*)").search(tag)
      if result:
          value.namespace, tag = result.groups()
      return (tag, value)
  \<close>
  \<open>search\<close> takes the leftmost position where the pattern matches. A dot matches
  every character but the newline, and the first \<open>.*\<close> is greedy: the first group
  runs to the last closing brace of the line, the second is the rest of the line.
\<close>

definition newline :: char where
  "newline = CHR 0x0A"

definition match_braces :: "string \<Rightarrow> (string \<times> string) option" where
  "match_braces s =
     (case strip_prefix ''{'' s of
        None \<Rightarrow> None
      | Some r \<Rightarrow> rsplit CHR ''}'' (takeWhile (\<lambda>c. c \<noteq> newline) r))"

fun search_braces :: "string \<Rightarrow> (string \<times> string) option" where
  "search_braces [] = None"
| "search_braces (c # cs) =
     (case match_braces (c # cs) of
        Some groups \<Rightarrow> Some groups
      | None \<Rightarrow> search_braces cs)"

definition namespace_split :: "string \<Rightarrow> dotdict \<Rightarrow> string \<times> dotdict" where
  "namespace_split tag v =
     (case search_braces tag of
        Some (ns, name) \<Rightarrow> (name, DotDict_setattr v ''namespace'' (Str ns))
      | None \<Rightarrow> (tag, v))"

subsection \<open>\<open>XML2Dict._parse_node\<close>\<close>

text \<open>
  An element of \<open>xml.etree.ElementTree\<close>: its tag, its attributes in document order,
  its text (\<open>None\<close> when there is none) and its children.
\<close>

datatype element =
  Element (el_tag: string) (el_attrib: "(string \<times> string) list")
    (el_text: "string option") (el_children: "element list")

text \<open>
  \<open>node_tree[tag].append(tree)\<close> appends, in place, to the object that the read
  \<open>node_tree[tag]\<close> returns. The read goes through \<open>_value_or_node\<close>, so the object is
  the stored value or, below a chain of nodes with the single key \<open>value\<close>, the value
  at the end of the chain. \<open>append_to stored x\<close> is the stored value after the call.
  A string has no \<open>append\<close>; neither \<open>dict\<close> nor \<open>DotDict\<close> has an attribute \<open>append\<close>,
  so that on a \<open>DotDict\<close> the lookup falls to \<open>__getattr__\<close> and reads the key \<open>append\<close>,
  and no value is callable.
\<close>

function append_to :: "val \<Rightarrow> val \<Rightarrow> error + val" where
  "append_to (Seq xs) x = Inr (Seq (xs @ [x]))"
| "append_to (Str s) x = Inl (AttributeError ''append'')"
| "append_to (Node d) x =
     (case map_of d ''value'' of
        Some v \<Rightarrow>
          if dict_len d = 1 then
            (case append_to v x of
               Inl e \<Rightarrow> Inl e
             | Inr v' \<Rightarrow> Inr (Node (dict_setitem d ''value'' v')))
          else
            (case DotDict_getattr d ''append'' of
               Inl e \<Rightarrow> Inl e
             | Inr f \<Rightarrow> Inl (TypeError ''not callable''))
      | None \<Rightarrow>
          (case DotDict_getattr d ''append'' of
             Inl e \<Rightarrow> Inl e
           | Inr f \<Rightarrow> Inl (TypeError ''not callable'')))"
  by pat_completeness auto
termination
  by (relation "measure (\<lambda>(v, x). size v)") (auto dest: map_of_size_val)

text \<open>
  \<^verbatim>\<open>
  for key, val in node.attrib.items():
      key, val = self._namespace_split(key, DotDict({"value": val}))
      node_tree[key] = val
  \<close>
\<close>

definition fold_attrib :: "dotdict \<Rightarrow> string \<times> string \<Rightarrow> dotdict" where
  "fold_attrib node_tree item =
     (case item of (key, val) \<Rightarrow>
        (case namespace_split key [(''value'', Str val)] of
           (key', val') \<Rightarrow> dict_setitem node_tree key' (Node val')))"

text \<open>
  \<^verbatim>\<open>
  tag, tree = self._namespace_split(child.tag, self._parse_node(child))
  if tag not in node_tree:  # the first time, so store it in dict
      node_tree[tag] = tree
      continue
  old = node_tree[tag]
  if not isinstance(old, list):
      node_tree.pop(tag)
      node_tree[tag] = [old]  # multi times, so change old dict to a list
  node_tree[tag].append(tree)  # add the new one
  \<close>
\<close>

definition fold_child :: "dotdict \<Rightarrow> string \<times> dotdict \<Rightarrow> error + dotdict" where
  "fold_child node_tree entry =
     (case entry of (tag, tree) \<Rightarrow>
        if \<not> dict_contains node_tree tag then Inr (dict_setitem node_tree tag (Node tree))
        else
          (case DotDict_getitem node_tree tag of
             Inl e \<Rightarrow> Inl e
           | Inr old \<Rightarrow>
               (let node_tree1 =
                  (if \<not> isinstance_list old
                   then dict_setitem (dict_pop node_tree tag) tag (Seq [old])
                   else node_tree)
                in (case dict_getitem node_tree1 tag of
                      Inl e \<Rightarrow> Inl e
                    | Inr stored \<Rightarrow>
                        (case append_to stored (Node tree) of
                           Inl e \<Rightarrow> Inl e
                         | Inr stored' \<Rightarrow> Inr (dict_setitem node_tree1 tag stored'))))))"

text \<open>
  \<^verbatim>\<open>
  def _parse_node(self, node):
      node_tree = DotDict()
      if node.text and node.text.strip():
          node_tree.value = node.text
      for key, val in node.attrib.items():
          ...
      for child in node:
          ...
      return node_tree
  \<close>
  \<open>parse_children\<close> is the loop over the children, with \<open>node_tree\<close> as its state.
\<close>

definition text_and_attribs :: "string option \<Rightarrow> (string \<times> string) list \<Rightarrow> dotdict" where
  "text_and_attribs txt attrib =
     (let node_tree = [];
          node_tree =
            (case txt of
               None \<Rightarrow> node_tree
             | Some t \<Rightarrow>
                 if t \<noteq> [] \<and> strip t \<noteq> [] then DotDict_setattr node_tree ''value'' (Str t)
                 else node_tree)
      in foldl fold_attrib node_tree attrib)"

fun parse_node :: "element \<Rightarrow> error + dotdict"
  and parse_children :: "dotdict \<Rightarrow> element list \<Rightarrow> error + dotdict" where
  "parse_node (Element tag attrib txt children) =
     parse_children (text_and_attribs txt attrib) children"
| "parse_children node_tree [] = Inr node_tree"
| "parse_children node_tree (child # rest) =
     (case parse_node child of
        Inl e \<Rightarrow> Inl e
      | Inr tree \<Rightarrow>
          (case fold_child node_tree (namespace_split (el_tag child) tree) of
             Inl e \<Rightarrow> Inl e
           | Inr node_tree' \<Rightarrow> parse_children node_tree' rest))"

subsection \<open>\<open>XML2Dict.fromstring\<close>\<close>

text \<open>
  \<^verbatim>\<open>
  def fromstring(self, str_):
      text = ET.fromstring(str_)
      root_tag, root_tree = self._namespace_split(text.tag, self._parse_node(text))
      return DotDict({root_tag: root_tree})
  \<close>
  \<open>ET.fromstring\<close> is the XML parser of the Python library, not code of this
  repository: it is the parameter \<open>ET\<close>, which gives the root element or the parse
  error it raises.
\<close>

definition fromstring :: "(string \<Rightarrow> error + element) \<Rightarrow> string \<Rightarrow> error + dotdict" where
  "fromstring ET str =
     (case ET str of
        Inl e \<Rightarrow> Inl e
      | Inr root \<Rightarrow>
          (case parse_node root of
             Inl e \<Rightarrow> Inl e
           | Inr tree \<Rightarrow>
               (case namespace_split (el_tag root) tree of
                  (root_tag, root_tree) \<Rightarrow> Inr [(root_tag, Node root_tree)])))"

section \<open>The response wrappers\<close>

subsection \<open>\<open>DictWrapper\<close>\<close>

text \<open>The content handed to \<open>DictWrapper\<close>: a \<open>str\<close> or a \<open>bytes\<close> object.\<close>

datatype content =
    Text string
  | Bytes string

text \<open>
  \<open>xml.decode(encoding="iso-8859-1")\<close>: the byte of value \<open>n\<close> is the code point
  \<open>n\<close>, and the codec accepts each of the 256 bytes.
\<close>

definition decode_iso_8859_1 :: "string \<Rightarrow> error + string" where
  "decode_iso_8859_1 b = Inr b"

record DictWrapper =
  dict_response :: "val option"
  p_original :: content
  p_result_key :: "string option"
  p_mydict :: dotdict
  p_response_dict :: val

text \<open>
  \<^verbatim>\<open>
  def __init__(self, xml, result_key=None):
      if isinstance(xml, bytes):
          try:
              xml = xml.decode(encoding="iso-8859-1")
          except UnicodeDecodeError as exc:
              error = MWSError(str(exc.response.text))
              error.response = xml
              raise error
      self.response = None
      self._original = xml
      self._result_key = result_key
      self._mydict = XML2Dict().fromstring(remove_xml_namespace(self.original))
      self._response_dict = self._mydict.get(
          list(self._mydict.keys())[0], self._mydict
      )
  \<close>
  A \<open>UnicodeDecodeError\<close> has no attribute \<open>response\<close>: the first line of the handler
  raises \<open>AttributeError\<close>.
\<close>

definition DictWrapper_init ::
  "(string \<Rightarrow> error + element) \<Rightarrow> content \<Rightarrow> string option \<Rightarrow> error + DictWrapper" where
  "DictWrapper_init ET xml result_key =
     (case (case xml of
              Bytes b \<Rightarrow>
                (case decode_iso_8859_1 b of
                   Inl exc \<Rightarrow> Inl (AttributeError ''response'')
                 | Inr s \<Rightarrow> Inr s)
            | Text s \<Rightarrow> Inr s) of
        Inl e \<Rightarrow> Inl e
      | Inr xml' \<Rightarrow>
          (case fromstring ET (remove_xml_namespace xml') of
             Inl e \<Rightarrow> Inl e
           | Inr mydict \<Rightarrow>
               (case map fst mydict of
                  [] \<Rightarrow> Inl (IndexError ''list index out of range'')
                | k # ks \<Rightarrow>
                    Inr \<lparr>dict_response = None, p_original = Text xml',
                         p_result_key = result_key, p_mydict = mydict,
                         p_response_dict = DotDict_get mydict k (Node mydict)\<rparr>)))"

text \<open>
  \<^verbatim>\<open>
  @property
  def original(self):
      return self._original
  \<close>
\<close>

definition DictWrapper_original :: "DictWrapper \<Rightarrow> content" where
  "DictWrapper_original self = p_original self"

subsection \<open>\<open>DataWrapper\<close>\<close>

text \<open>
  The headers are a mapping from header names to \<open>str\<close> values. \<open>str.encode()\<close> is
  the UTF-8 encoding: a code point below 128 is one byte, one of 128..255 is two.
\<close>

definition utf8_encode_char :: "char \<Rightarrow> string" where
  "utf8_encode_char c =
     (let n = (of_char c :: nat)
      in if n < 128 then [c] else [char_of (192 + n div 64), char_of (128 + n mod 64)])"

definition str_encode :: "string \<Rightarrow> string" where
  "str_encode s = concat (map utf8_encode_char s)"

record DataWrapper =
  original :: string
  response :: "val option"
  headers :: "string \<rightharpoonup> string"

text \<open>
  \<^verbatim>\<open>
  def __init__(self, data, headers):
      self.original = data
      self.response = None
      self.headers = headers
      if "content-md5" in self.headers:
          hash_ = calc_md5(self.original)
          if self.headers["content-md5"].encode() != hash_:
              raise MWSError("Wrong Content length, maybe amazon error...")
  \<close>
  \<open>calc_md5\<close> is defined in \<open>mws/utils/crypto.py\<close>: it is the parameter \<open>calc_md5\<close>,
  from the payload bytes to the digest bytes.
\<close>

definition DataWrapper_init ::
  "(string \<Rightarrow> string) \<Rightarrow> string \<Rightarrow> (string \<rightharpoonup> string) \<Rightarrow> error + DataWrapper" where
  "DataWrapper_init calc_md5 data hdrs =
     (let self = \<lparr>original = data, response = None, headers = hdrs\<rparr>
      in (case headers self ''content-md5'' of
            None \<Rightarrow> Inr self
          | Some declared \<Rightarrow>
              (let hash = calc_md5 (original self)
               in if str_encode declared \<noteq> hash
                  then Inl (MWSError ''Wrong Content length, maybe amazon error...'')
                  else Inr self)))"

definition DataWrapper_parsed :: "DataWrapper \<Rightarrow> string" where
  "DataWrapper_parsed self = original self"

text \<open>
  \<^verbatim>\<open>
  @property
  def unzipped(self):
      if self.headers["content-type"] == "application/zip":
          try:
              with ZipFile(BytesIO(self.original)) as unzipped_fileobj:
                  unzipped_fileobj.extractall()
                  return unzipped_fileobj
          except Exception as exc:
              raise MWSError(str(exc))
      return None
  \<close>
  Opening the archive and extracting it into the working directory is the work of
  the Python library: it is the parameter \<open>extract\<close>, from the payload bytes and the
  file system to the archive object, or the message of the exception raised, and the
  file system left behind.
\<close>

definition DataWrapper_unzipped ::
  "(string \<Rightarrow> 'fs \<Rightarrow> (string + 'z) \<times> 'fs) \<Rightarrow> DataWrapper \<Rightarrow> 'fs \<Rightarrow> (error + 'z option) \<times> 'fs" where
  "DataWrapper_unzipped extract self fs =
     (case headers self ''content-type'' of
        None \<Rightarrow> (Inl (KeyError ''content-type''), fs)
      | Some ctype \<Rightarrow>
          if ctype = ''application/zip'' then
            (case extract (original self) fs of
               (Inl msg, fs') \<Rightarrow> (Inl (MWSError msg), fs')
             | (Inr z, fs') \<Rightarrow> (Inr (Some z), fs'))
          else (Inr None, fs))"

section \<open>Notions used in the statements\<close>

text \<open>The test of \<open>_value_or_node\<close>: a \<open>DotDict\<close> whose only key is \<open>value\<close>.\<close>

fun single_value :: "val \<Rightarrow> bool" where
  "single_value (Node d) = (dict_contains d ''value'' \<and> dict_len d = 1)"
| "single_value (Str s) = False"
| "single_value (Seq xs) = False"

text \<open>
  The key under which \<open>_namespace_split\<close> files a tag or an attribute name: the name
  without its \<open>{uri}\<close> part.
\<close>

definition local_name :: "string \<Rightarrow> string" where
  "local_name tag = fst (namespace_split tag [])"

text \<open>
  The \<open>DotDict\<close> that the loop over the children folds in for a child: what
  \<open>_parse_node\<close> returns for it, after \<open>_namespace_split\<close>. (\<open>_parse_node\<close> raises nothing,
  \<open>parse_total\<close> below.)
\<close>

definition child_tree :: "element \<Rightarrow> dotdict" where
  "child_tree child =
     (case parse_node child of
        Inr tree \<Rightarrow> snd (namespace_split (el_tag child) tree)
      | Inl e \<Rightarrow> [])"

text \<open>
  A parser for the examples: \<open>ET.fromstring("<a/>")\<close> is the element \<open>a\<close> with no
  attribute, no text and no child.
\<close>

definition ET_empty_a :: "string \<Rightarrow> error + element" where
  "ET_empty_a s =
     (if s = ''<a/>'' then Inr (Element ''a'' [] None []) else Inl (ParseError ''syntax error''))"

text \<open>
  \<open>holds v n\<close>: the \<open>DotDict\<close> \<open>n\<close> is \<open>v\<close> or lies inside it, as the value of a key or as
  an item of a list, at any depth. With \<open>fromstring\<close>'s result for \<open>v\<close> this says that the
  returned tree holds the node \<open>n\<close>.
\<close>

inductive holds :: "val \<Rightarrow> dotdict \<Rightarrow> bool" where
  holds_here: "holds (Node d) d"
| holds_entry: "(k, v) \<in> set d \<Longrightarrow> holds v n \<Longrightarrow> holds (Node d) n"
| holds_item: "v \<in> set xs \<Longrightarrow> holds v n \<Longrightarrow> holds (Seq xs) n"

text \<open>
  \<open>reaches root p\<close>: the element \<open>p\<close> is \<open>root\<close> or lies below it, and no element on the
  way down from \<open>root\<close> to \<open>p\<close> is filed under the key \<open>namespace\<close> of a parent whose own
  tag has a \<open>{uri}\<close> part (\<open>_namespace_split\<close> of the parent's tag overwrites that key).
\<close>

inductive reaches :: "element \<Rightarrow> element \<Rightarrow> bool" where
  reaches_self: "reaches e e"
| reaches_child:
    "c \<in> set (el_children q) \<Longrightarrow> reaches c p \<Longrightarrow>
     \<not> (local_name (el_tag c) = ''namespace'' \<and> search_braces (el_tag q) \<noteq> None) \<Longrightarrow>
     reaches q p"

text \<open>
  The texts that the pattern of \<open>remove_xml_namespace\<close> matches: a declaration
  \<open>xmlns="v"\<close> or \<open>xmlns:ns2="v"\<close> after a space, with a value \<open>v\<close> of one character
  at least and in double quotes, and the prefixes \<open>ns2:\<close> and \<open>xml:\<close>.
\<close>

inductive ns_token :: "string \<Rightarrow> bool" where
  token_xmlns: "v \<noteq> [] \<Longrightarrow> quote \<notin> set v \<Longrightarrow> ns_token ('' xmlns='' @ quote # v @ [quote])"
| token_xmlns_ns2:
    "v \<noteq> [] \<Longrightarrow> quote \<notin> set v \<Longrightarrow> ns_token ('' xmlns:ns2='' @ quote # v @ [quote])"
| token_ns2: "ns_token ''ns2:''"
| token_xml: "ns_token ''xml:''"

text \<open>
  A parser for the examples: what \<open>ET.fromstring\<close> returns for four documents. A tag
  with a bound prefix comes back as \<open>{uri}local\<close>, and a declaration \<open>xmlns:p\<close> is no
  attribute of the element.
\<close>

definition ET_examples :: "string \<Rightarrow> error + element" where
  \<open>ET_examples s =
     (if s = ''<a><b>1</b></a>''
        then Inr (Element ''a'' [] None [Element ''b'' [] (Some ''1'') []])
      else if s = ''<p:a xmlns:p="urn:x"><p:b>1</p:b></p:a>''
        then Inr (Element ''{urn:x}a'' [] None [Element ''{urn:x}b'' [] (Some ''1'') []])
      else if s = ''<a><i k="1"><b x="1"/><c/><b>2</b><b x="y"/></i></a>''
        then Inr (Element ''a'' [] None
          [Element ''i'' [(''k'', ''1'')] None
             [Element ''b'' [(''x'', ''1'')] None [], Element ''c'' [] None [],
              Element ''b'' [] (Some ''2'') [], Element ''b'' [(''x'', ''y'')] None []]])
      else if s = ''<p:a xmlns:p="urn:r" namespace="v" k="w"/>''
        then Inr (Element ''{urn:r}a'' [(''namespace'', ''v''), (''k'', ''w'')] None [])
      else Inl (ParseError ''syntax error''))\<close>

text \<open>
  A digest function for the examples: it agrees with the repository's test of
  \<open>calc_md5\<close>, \<open>calc_md5(b"mws") == b"mA5nPbh1CSx9M3dbkr3Cyg=="\<close>.
\<close>

definition calc_md5_test :: "string \<Rightarrow> string" where
  "calc_md5_test data = (if data = ''mws'' then ''mA5nPbh1CSx9M3dbkr3Cyg=='' else [])"

text \<open>
  An extraction for the examples, on a file system that is the list of the names of
  its files: the payload \<open>PK\<close> stands for an archive holding the file \<open>report.txt\<close>,
  every other payload is refused.
\<close>

definition extract_test :: "string \<Rightarrow> string list \<Rightarrow> (string + nat) \<times> string list" where
  "extract_test data fs =
     (if data = ''PK'' then (Inr 0, ''report.txt'' # fs)
      else (Inl ''File is not a zip file'', fs))"

section \<open>Properties of \<open>DotDict\<close>\<close>

lemma single_value_iff: "single_value v \<longleftrightarrow> (\<exists>x. v = Node [(''value'', x)])"
proof (cases v)
  case (Node d)
  show ?thesis
  proof (cases d)
    case Nil
    with Node show ?thesis by (simp add: dict_contains_def dict_len_def)
  next
    case (Cons p ps)
    with Node show ?thesis
      by (cases p) (auto simp: dict_contains_def dict_len_def split: if_splits)
  qed
qed simp_all

lemma value_or_node_not_single: "\<not> single_value (value_or_node v)"
  by (induction v rule: value_or_node.induct)
    (auto simp: dict_contains_def split: option.splits)

lemma value_or_node_id: "\<not> single_value v \<Longrightarrow> value_or_node v = v"
  by (cases v) (auto simp: dict_contains_def split: option.splits)

text \<open>
  C1, as the code has it. When the value stored under a key is a \<open>DotDict\<close> whose
  only key is \<open>value\<close>, reading the key returns what reading \<open>value\<close> from that
  \<open>DotDict\<close> returns: the raw value when that is no such \<open>DotDict\<close> itself, and the
  raw value unwrapped again otherwise. The unwrapping goes through every level, and a
  read never returns a \<open>DotDict\<close> whose only key is \<open>value\<close>.
\<close>

theorem getitem_single_value:
  assumes "dict_getitem d key = Inr (Node n)" and "single_value (Node n)"
  shows "DotDict_getitem d key = DotDict_getitem n ''value''
    \<and> (\<exists>x. n = [(''value'', x)] \<and> DotDict_getitem d key = Inr (value_or_node x)
          \<and> (\<not> single_value x \<longrightarrow> DotDict_getitem d key = Inr x))
    \<and> (\<forall>y. DotDict_getitem d key = Inr y \<longrightarrow> \<not> single_value y)"
proof -
  from assms(2) obtain x where n: "n = [(''value'', x)]"
    by (auto simp: single_value_iff)
  have r: "DotDict_getitem d key = Inr (value_or_node x)"
    using assms(1) n by (simp add: DotDict_getitem_def dict_len_def)
  have "DotDict_getitem n ''value'' = Inr (value_or_node x)"
    using n by (simp add: DotDict_getitem_def dict_getitem_def)
  with r n show ?thesis
    by (auto simp: value_or_node_id value_or_node_not_single)
qed

theorem getitem_single_value_witness:
  "dict_getitem [(''b'', Node [(''value'', Str ''1'')])] ''b'' = Inr (Node [(''value'', Str ''1'')])
   \<and> single_value (Node [(''value'', Str ''1'')])
   \<and> DotDict_getitem [(''b'', Node [(''value'', Str ''1'')])] ''b'' = Inr (Str ''1'')"
proof -
  have h1: "dict_getitem [(''b'', Node [(''value'', Str ''1'')])] ''b''
      = Inr (Node [(''value'', Str ''1'')])"
    by (simp add: dict_getitem_def)
  have h2: "single_value (Node [(''value'', Str ''1'')])"
    by (simp add: dict_contains_def dict_len_def)
  from getitem_single_value [OF h1 h2]
  have "DotDict_getitem [(''b'', Node [(''value'', Str ''1'')])] ''b'' = Inr (Str ''1'')"
    by auto
  with h1 h2 show ?thesis by blast
qed

text \<open>
  C1 as stated fails: \<open>{"k": {"value": {"value": "x"}}}\<close> reads back at \<open>k\<close> as
  \<open>"x"\<close>, not as the inner node \<open>{"value": "x"}\<close>.
\<close>

theorem getitem_nested_value_counterexample:
  "DotDict_getitem [(''k'', Node [(''value'', Node [(''value'', Str ''x'')])])] ''k''
     = Inr (Str ''x'')
   \<and> DotDict_getitem [(''k'', Node [(''value'', Node [(''value'', Str ''x'')])])] ''k''
     \<noteq> Inr (Node [(''value'', Str ''x'')])"
  by (simp add: DotDict_getitem_def dict_getitem_def dict_len_def)

text \<open>
  C8. Iterating a \<open>DotDict\<close> yields one item, the \<open>DotDict\<close> itself, as it is stored
  (a node whose only key is \<open>value\<close> is yielded as the node).
\<close>

theorem iter_lone_node: "DotDict_iter (Node d) = Inr [Node d]"
  by (simp add: DotDict_iter_def)

section \<open>Properties of the wrappers\<close>

text \<open>
  Decoding under iso-8859-1 refuses no bytes, so the handler of \<open>UnicodeDecodeError\<close>
  in \<open>DictWrapper.__init__\<close> is never entered: bytes are handled as the text with the
  same code points.
\<close>

lemma decode_iso_8859_1_total: "\<exists>s. decode_iso_8859_1 b = Inr s"
  by (simp add: decode_iso_8859_1_def)

lemma init_bytes_as_text:
  "DictWrapper_init ET (Bytes b) result_key = DictWrapper_init ET (Text b) result_key"
  by (simp add: DictWrapper_init_def decode_iso_8859_1_def)

text \<open>
  C4, as the code has it. After a construction that succeeds, \<open>original\<close> is the text
  that was parsed: the text passed in, or, for bytes, the text that decoding them
  under iso-8859-1 gives. For bytes it is a \<open>str\<close>, not the bytes object passed in.
\<close>

theorem original_after_init:
  assumes "DictWrapper_init ET xml result_key = Inr self"
  shows "(\<forall>s. xml = Text s \<longrightarrow> DictWrapper_original self = Text s)
    \<and> (\<forall>b. xml = Bytes b \<longrightarrow>
          (\<exists>s. decode_iso_8859_1 b = Inr s \<and> DictWrapper_original self = Text s)
          \<and> DictWrapper_original self \<noteq> Bytes b)"
  using assms
  by (cases xml)
    (auto simp: DictWrapper_init_def DictWrapper_original_def decode_iso_8859_1_def
      split: sum.splits list.splits)

theorem original_after_init_witness:
  "DictWrapper_init ET_empty_a (Text ''<a/>'') None
     = Inr \<lparr>dict_response = None, p_original = Text ''<a/>'', p_result_key = None,
            p_mydict = [(''a'', Node [])], p_response_dict = Node []\<rparr>
   \<and> DictWrapper_original
         \<lparr>dict_response = None, p_original = Text ''<a/>'', p_result_key = None,
          p_mydict = [(''a'', Node [])], p_response_dict = Node []\<rparr> = Text ''<a/>''"
proof -
  have h: "DictWrapper_init ET_empty_a (Text ''<a/>'') None
     = Inr \<lparr>dict_response = None, p_original = Text ''<a/>'', p_result_key = None,
            p_mydict = [(''a'', Node [])], p_response_dict = Node []\<rparr>"
    by (simp add: DictWrapper_init_def ET_empty_a_def fromstring_def text_and_attribs_def
        namespace_split_def match_braces_def match_namespace_def match_xmlns_def
        DotDict_get_def DotDict_getitem_def dict_getitem_def)
  from original_after_init [OF h] h show ?thesis by simp
qed

text \<open>
  C4 as stated fails for bytes: constructed from the bytes \<open>b"<a/>"\<close>, the wrapper's
  \<open>original\<close> is the string \<open>"<a/>"\<close>, which is not the bytes object.
\<close>

theorem original_bytes_counterexample:
  "map_sum id DictWrapper_original (DictWrapper_init ET_empty_a (Bytes ''<a/>'') None)
     = Inr (Text ''<a/>'')
   \<and> map_sum id DictWrapper_original (DictWrapper_init ET_empty_a (Bytes ''<a/>'') None)
     \<noteq> Inr (Bytes ''<a/>'')"
  by (simp add: DictWrapper_init_def DictWrapper_original_def decode_iso_8859_1_def
      ET_empty_a_def fromstring_def text_and_attribs_def
      namespace_split_def match_braces_def match_namespace_def match_xmlns_def
      DotDict_get_def DotDict_getitem_def dict_getitem_def)

text \<open>
  C5. The construction of a \<open>DataWrapper\<close> raises \<open>MWSError\<close> exactly when the headers
  have a \<open>content-md5\<close> whose value, encoded, differs from the digest of the payload;
  it raises nothing else, and when the header is absent or matches, it succeeds and
  \<open>parsed\<close> is the payload.
\<close>

theorem checksum_validation:
  "((\<exists>msg. DataWrapper_init calc_md5 data hdrs = Inl (MWSError msg)) \<longleftrightarrow>
      (\<exists>declared. hdrs ''content-md5'' = Some declared
         \<and> str_encode declared \<noteq> calc_md5 data))
   \<and> (\<forall>e. DataWrapper_init calc_md5 data hdrs = Inl e \<longrightarrow>
         e = MWSError ''Wrong Content length, maybe amazon error...'')
   \<and> (\<not> (\<exists>declared. hdrs ''content-md5'' = Some declared
            \<and> str_encode declared \<noteq> calc_md5 data) \<longrightarrow>
        (\<exists>self. DataWrapper_init calc_md5 data hdrs = Inr self
           \<and> DataWrapper_parsed self = data))"
  by (cases "hdrs ''content-md5''")
    (auto simp: DataWrapper_init_def DataWrapper_parsed_def Let_def)

theorem checksum_validation_witness:
  "(\<exists>self. DataWrapper_init calc_md5_test ''mws''
        [''content-md5'' \<mapsto> ''mA5nPbh1CSx9M3dbkr3Cyg==''] = Inr self
      \<and> DataWrapper_parsed self = ''mws'')
   \<and> (\<exists>msg. DataWrapper_init calc_md5_test ''mws''
        [''content-md5'' \<mapsto> ''not a hash''] = Inl (MWSError msg))"
proof -
  have m: "str_encode ''mA5nPbh1CSx9M3dbkr3Cyg=='' = calc_md5_test ''mws''"
    by (simp add: str_encode_def utf8_encode_char_def calc_md5_test_def)
  have n: "str_encode ''not a hash'' \<noteq> calc_md5_test ''mws''"
    by (simp add: str_encode_def utf8_encode_char_def calc_md5_test_def)
  from checksum_validation [of calc_md5_test "''mws''"
      "[''content-md5'' \<mapsto> ''mA5nPbh1CSx9M3dbkr3Cyg=='']"] m
  have a: "\<exists>self. DataWrapper_init calc_md5_test ''mws''
        [''content-md5'' \<mapsto> ''mA5nPbh1CSx9M3dbkr3Cyg==''] = Inr self
      \<and> DataWrapper_parsed self = ''mws''"
    by simp
  from checksum_validation [of calc_md5_test "''mws''" "[''content-md5'' \<mapsto> ''not a hash'']"] n
  have b: "\<exists>msg. DataWrapper_init calc_md5_test ''mws''
        [''content-md5'' \<mapsto> ''not a hash''] = Inl (MWSError msg)"
    by simp
  from a b show ?thesis by blast
qed

text \<open>
  C6. With the header \<open>content-type\<close> equal to \<open>application/zip\<close>, \<open>unzipped\<close> extracts
  the payload and returns the archive object, and raises \<open>MWSError\<close>, with the message
  of the exception, when the extraction fails. With any other value of the header it
  returns \<open>None\<close> and leaves the file system as it is.
\<close>

theorem unzipped_by_content_type:
  assumes "headers self ''content-type'' = Some ctype"
  shows "(ctype = ''application/zip'' \<longrightarrow>
           (\<forall>z fs'. extract (original self) fs = (Inr z, fs') \<longrightarrow>
              DataWrapper_unzipped extract self fs = (Inr (Some z), fs'))
           \<and> (\<forall>msg fs'. extract (original self) fs = (Inl msg, fs') \<longrightarrow>
              DataWrapper_unzipped extract self fs = (Inl (MWSError msg), fs')))
    \<and> (ctype \<noteq> ''application/zip'' \<longrightarrow> DataWrapper_unzipped extract self fs = (Inr None, fs))"
  using assms by (simp add: DataWrapper_unzipped_def)

theorem unzipped_by_content_type_witness:
  "DataWrapper_unzipped extract_test
     \<lparr>original = ''PK'', response = None, headers = [''content-type'' \<mapsto> ''application/zip'']\<rparr> []
     = (Inr (Some 0), [''report.txt''])
   \<and> DataWrapper_unzipped extract_test
     \<lparr>original = ''mws'', response = None, headers = [''content-type'' \<mapsto> ''application/zip'']\<rparr> []
     = (Inl (MWSError ''File is not a zip file''), [])
   \<and> DataWrapper_unzipped extract_test
     \<lparr>original = ''PK'', response = None, headers = [''content-type'' \<mapsto> ''text/xml'']\<rparr> []
     = (Inr None, [])"
proof -
  have a: "DataWrapper_unzipped extract_test
     \<lparr>original = ''PK'', response = None, headers = [''content-type'' \<mapsto> ''application/zip'']\<rparr> []
     = (Inr (Some 0), [''report.txt''])"
    using unzipped_by_content_type [of
        "\<lparr>original = ''PK'', response = None,
          headers = [''content-type'' \<mapsto> ''application/zip'']\<rparr>"
        "''application/zip''" extract_test "[]"]
    by (simp add: extract_test_def)
  have b: "DataWrapper_unzipped extract_test
     \<lparr>original = ''mws'', response = None, headers = [''content-type'' \<mapsto> ''application/zip'']\<rparr> []
     = (Inl (MWSError ''File is not a zip file''), [])"
    using unzipped_by_content_type [of
        "\<lparr>original = ''mws'', response = None,
          headers = [''content-type'' \<mapsto> ''application/zip'']\<rparr>"
        "''application/zip''" extract_test "[]"]
    by (simp add: extract_test_def)
  have c: "DataWrapper_unzipped extract_test
     \<lparr>original = ''PK'', response = None, headers = [''content-type'' \<mapsto> ''text/xml'']\<rparr> []
     = (Inr None, [])"
    using unzipped_by_content_type [of
        "\<lparr>original = ''PK'', response = None, headers = [''content-type'' \<mapsto> ''text/xml'']\<rparr>"
        "''text/xml''" extract_test "[]"]
    by simp
  from a b c show ?thesis by blast
qed

text \<open>
  C10. Whatever the other headers are, without a \<open>content-type\<close> header \<open>unzipped\<close>
  raises \<open>KeyError\<close> and touches nothing, whereas the construction accepts headers
  without \<open>content-md5\<close>.
\<close>

theorem unzipped_without_content_type:
  "(headers self ''content-type'' = None \<longrightarrow>
      DataWrapper_unzipped extract self fs = (Inl (KeyError ''content-type''), fs))
   \<and> (hdrs ''content-md5'' = None \<longrightarrow>
      DataWrapper_init calc_md5 data hdrs
        = Inr \<lparr>original = data, response = None, headers = hdrs\<rparr>)"
  by (simp add: DataWrapper_init_def DataWrapper_unzipped_def)

theorem unzipped_without_content_type_witness:
  "DataWrapper_init calc_md5_test ''mws'' [''content-md5'' \<mapsto> ''mA5nPbh1CSx9M3dbkr3Cyg=='']
     = Inr \<lparr>original = ''mws'', response = None,
            headers = [''content-md5'' \<mapsto> ''mA5nPbh1CSx9M3dbkr3Cyg=='']\<rparr>
   \<and> DataWrapper_unzipped extract_test
       \<lparr>original = ''mws'', response = None,
        headers = [''content-md5'' \<mapsto> ''mA5nPbh1CSx9M3dbkr3Cyg=='']\<rparr> []
     = (Inl (KeyError ''content-type''), [])
   \<and> DataWrapper_init calc_md5_test ''PK'' Map.empty
     = Inr \<lparr>original = ''PK'', response = None, headers = Map.empty\<rparr>
   \<and> DataWrapper_unzipped extract_test
       \<lparr>original = ''PK'', response = None, headers = Map.empty\<rparr> []
     = (Inl (KeyError ''content-type''), [])"
proof -
  have i: "DataWrapper_init calc_md5_test ''mws'' [''content-md5'' \<mapsto> ''mA5nPbh1CSx9M3dbkr3Cyg=='']
     = Inr \<lparr>original = ''mws'', response = None,
            headers = [''content-md5'' \<mapsto> ''mA5nPbh1CSx9M3dbkr3Cyg=='']\<rparr>"
    by (simp add: DataWrapper_init_def str_encode_def utf8_encode_char_def calc_md5_test_def)
  from unzipped_without_content_type
    [of "\<lparr>original = ''mws'', response = None,
          headers = [''content-md5'' \<mapsto> ''mA5nPbh1CSx9M3dbkr3Cyg=='']\<rparr>"
        extract_test "[]" Map.empty calc_md5_test "''PK''"]
  have a: "DataWrapper_unzipped extract_test
       \<lparr>original = ''mws'', response = None,
        headers = [''content-md5'' \<mapsto> ''mA5nPbh1CSx9M3dbkr3Cyg=='']\<rparr> []
     = (Inl (KeyError ''content-type''), [])"
    and b: "DataWrapper_init calc_md5_test ''PK'' Map.empty
     = Inr \<lparr>original = ''PK'', response = None, headers = Map.empty\<rparr>"
    by simp_all
  from unzipped_without_content_type
    [of "\<lparr>original = ''PK'', response = None, headers = Map.empty\<rparr>"
        extract_test "[]" Map.empty calc_md5_test "''PK''"]
  have c: "DataWrapper_unzipped extract_test
       \<lparr>original = ''PK'', response = None, headers = Map.empty\<rparr> []
     = (Inl (KeyError ''content-type''), [])"
    by simp
  from i a b c show ?thesis by blast
qed

section \<open>Properties of the parser\<close>

subsection \<open>The dictionary operations\<close>

lemma map_of_setitem: "map_of (dict_setitem d key v) = (map_of d)(key \<mapsto> v)"
  by (induction d key v rule: dict_setitem.induct) auto

lemma map_of_pop: "map_of (dict_pop d key) = (map_of d)(key := None)"
  by (induction d) (auto simp: dict_pop_def)

lemma namespace_split_fst: "fst (namespace_split tag v) = local_name tag"
  by (simp add: namespace_split_def local_name_def split: option.splits)

lemma distinct_setitem:
  "distinct (map fst d) \<Longrightarrow> distinct (map fst (dict_setitem d key v))"
proof (induction d key v rule: dict_setitem.induct)
  case (2 k w d key v)
  have "fst ` set (dict_setitem d key v) = insert key (fst ` set d)"
    by (induction d key v rule: dict_setitem.induct) auto
  with 2 show ?case by auto
qed simp

lemma distinct_pop: "distinct (map fst d) \<Longrightarrow> distinct (map fst (dict_pop d key))"
  by (simp add: dict_pop_def distinct_map_filter)

subsection \<open>One step of the loop over the children\<close>

lemma append_to_seq:
  "value_or_node v = Seq xs \<Longrightarrow>
   \<exists>v'. append_to v x = Inr v' \<and> value_or_node v' = Seq (xs @ [x])"
proof (induction v arbitrary: xs rule: value_or_node.induct)
  case (1 d)
  from "1.prems" obtain b where b: "map_of d ''value'' = Some b" and l: "dict_len d = 1"
    and r: "value_or_node b = Seq xs"
    by (auto split: option.splits if_splits)
  from "1.IH" [OF b l r] obtain b' where a: "append_to b x = Inr b'"
    and r': "value_or_node b' = Seq (xs @ [x])"
    by blast
  from b l have d: "d = [(''value'', b)]"
    by (cases d) (auto simp: dict_len_def split: if_splits)
  from a b l r' d show ?case by (simp add: dict_len_def)
qed simp_all

lemma setitem_setitem:
  "dict_setitem (dict_setitem d key v) key v' = dict_setitem d key v'"
  by (induction d key v rule: dict_setitem.induct) auto

lemma fold_child_absent:
  "map_of nt tag = None \<Longrightarrow> fold_child nt (tag, tree) = Inr (dict_setitem nt tag (Node tree))"
  by (simp add: fold_child_def dict_contains_def)

lemma fold_child_promote:
  "map_of nt tag = Some stored \<Longrightarrow> \<not> isinstance_list (value_or_node stored) \<Longrightarrow>
   fold_child nt (tag, tree)
     = Inr (dict_setitem (dict_pop nt tag) tag (Seq [value_or_node stored, Node tree]))"
  by (simp add: fold_child_def dict_contains_def DotDict_getitem_def dict_getitem_def
      map_of_setitem setitem_setitem)

lemma fold_child_append:
  "map_of nt tag = Some stored \<Longrightarrow> value_or_node stored = Seq xs \<Longrightarrow>
   \<exists>stored'. fold_child nt (tag, tree) = Inr (dict_setitem nt tag stored')
     \<and> append_to stored (Node tree) = Inr stored'
     \<and> value_or_node stored' = Seq (xs @ [Node tree])"
  using append_to_seq [of stored xs "Node tree"]
  by (auto simp: fold_child_def dict_contains_def DotDict_getitem_def dict_getitem_def)

lemma fold_child_total: "\<exists>nt'. fold_child nt entry = Inr nt'"
proof (cases entry)
  case (Pair tag tree)
  show ?thesis
  proof (cases "map_of nt tag")
    case None
    with Pair show ?thesis by (simp add: fold_child_absent)
  next
    case (Some stored)
    show ?thesis
    proof (cases "isinstance_list (value_or_node stored)")
      case True
      then obtain xs where "value_or_node stored = Seq xs"
        by (cases "value_or_node stored") auto
      from fold_child_append [OF Some this] Pair show ?thesis by blast
    next
      case False
      from fold_child_promote [OF Some False] Pair show ?thesis by simp
    qed
  qed
qed

lemma fold_child_other:
  assumes "fold_child nt (tag, tree) = Inr nt'" and "key \<noteq> tag"
  shows "map_of nt' key = map_of nt key"
proof (cases "map_of nt tag")
  case None
  with assms show ?thesis by (auto simp: fold_child_absent map_of_setitem)
next
  case (Some stored)
  show ?thesis
  proof (cases "isinstance_list (value_or_node stored)")
    case True
    then obtain xs where "value_or_node stored = Seq xs"
      by (cases "value_or_node stored") auto
    from fold_child_append [OF Some this, of tree] assms show ?thesis
      by (auto simp: map_of_setitem)
  next
    case False
    from fold_child_promote [OF Some False, of tree] assms show ?thesis
      by (auto simp: map_of_setitem map_of_pop)
  qed
qed

subsection \<open>The loop over the children\<close>

text \<open>\<open>_parse_node\<close> raises nothing.\<close>

lemma parse_total:
  shows "\<exists>tree. parse_node e = Inr tree" and "\<exists>tree. parse_children nt kids = Inr tree"
proof (induction e and nt kids rule: parse_node_parse_children.induct)
  case (1 tag attrib tx children)
  then show ?case by simp
next
  case (2 node_tree)
  then show ?case by simp
next
  case (3 node_tree child rest)
  from 3(1) obtain tree where t: "parse_node child = Inr tree" by blast
  obtain nt' where f: "fold_child node_tree (namespace_split (el_tag child) tree) = Inr nt'"
    using fold_child_total by blast
  from 3(2) [OF t f] t f show ?case by simp
qed


lemma namespace_split_child:
  "parse_node child = Inr tree \<Longrightarrow>
   namespace_split (el_tag child) tree = (local_name (el_tag child), child_tree child)"
  using namespace_split_fst [of "el_tag child" tree]
  by (cases "namespace_split (el_tag child) tree") (simp add: child_tree_def)

lemma parse_children_Cons:
  "\<exists>nt'. fold_child nt (local_name (el_tag child), child_tree child) = Inr nt'
     \<and> parse_children nt (child # rest) = parse_children nt' rest"
proof -
  obtain tree where t: "parse_node child = Inr tree"
    using parse_total(1) by blast
  obtain nt' where f: "fold_child nt (local_name (el_tag child), child_tree child) = Inr nt'"
    using fold_child_total by blast
  from t f show ?thesis by (simp add: namespace_split_child)
qed

lemma parse_children_other:
  assumes "\<forall>c \<in> set kids. local_name (el_tag c) \<noteq> key"
    and "parse_children nt kids = Inr tree"
  shows "map_of tree key = map_of nt key"
  using assms
proof (induction kids arbitrary: nt)
  case Nil
  then show ?case by simp
next
  case (Cons child rest)
  obtain nt' where f: "fold_child nt (local_name (el_tag child), child_tree child) = Inr nt'"
    and p: "parse_children nt (child # rest) = parse_children nt' rest"
    using parse_children_Cons by blast
  from Cons.prems(1) have "key \<noteq> local_name (el_tag child)" by auto
  from fold_child_other [OF f this] have "map_of nt' key = map_of nt key" .
  moreover from Cons.IH [of nt'] Cons.prems p have "map_of tree key = map_of nt' key" by simp
  ultimately show ?case by simp
qed

lemma parse_children_seq:
  assumes "map_of nt t = Some (Seq xs)" and "parse_children nt kids = Inr tree"
  shows "map_of tree t
    = Some (Seq (xs @ map (\<lambda>c. Node (child_tree c))
                      (filter (\<lambda>c. local_name (el_tag c) = t) kids)))"
  using assms
proof (induction kids arbitrary: nt xs)
  case Nil
  then show ?case by simp
next
  case (Cons child rest)
  obtain nt' where f: "fold_child nt (local_name (el_tag child), child_tree child) = Inr nt'"
    and p: "parse_children nt (child # rest) = parse_children nt' rest"
    using parse_children_Cons by blast
  from p Cons.prems have r: "parse_children nt' rest = Inr tree" by simp
  show ?case
  proof (cases "local_name (el_tag child) = t")
    case True
    from fold_child_append [of nt t "Seq xs" xs "child_tree child"] Cons.prems(1) f True
    have "map_of nt' t = Some (Seq (xs @ [Node (child_tree child)]))"
      by (auto simp: map_of_setitem)
    from Cons.IH [OF this r] True show ?thesis by simp
  next
    case False
    then have "t \<noteq> local_name (el_tag child)" by blast
    from fold_child_other [OF f this] Cons.prems(1)
    have "map_of nt' t = Some (Seq xs)" by simp
    from Cons.IH [OF this r] False show ?thesis by simp
  qed
qed

lemma parse_children_single:
  assumes "map_of nt t = Some stored" and "\<not> isinstance_list (value_or_node stored)"
    and "filter (\<lambda>c. local_name (el_tag c) = t) kids = c # cs"
    and "parse_children nt kids = Inr tree"
  shows "map_of tree t
    = Some (Seq (value_or_node stored # map (\<lambda>c. Node (child_tree c)) (c # cs)))"
  using assms
proof (induction kids arbitrary: nt)
  case Nil
  then show ?case by simp
next
  case (Cons child rest)
  obtain nt' where f: "fold_child nt (local_name (el_tag child), child_tree child) = Inr nt'"
    and p: "parse_children nt (child # rest) = parse_children nt' rest"
    using parse_children_Cons by blast
  from p Cons.prems have r: "parse_children nt' rest = Inr tree" by simp
  show ?case
  proof (cases "local_name (el_tag child) = t")
    case True
    with Cons.prems(3) have c: "child = c"
      and cs: "filter (\<lambda>c. local_name (el_tag c) = t) rest = cs"
      by simp_all
    from fold_child_promote [OF Cons.prems(1,2), of "child_tree child"] f True
    have "map_of nt' t = Some (Seq [value_or_node stored, Node (child_tree child)])"
      by (auto simp: map_of_setitem)
    from parse_children_seq [OF this r] c cs show ?thesis by simp
  next
    case False
    then have "t \<noteq> local_name (el_tag child)" by blast
    from fold_child_other [OF f this] Cons.prems(1)
    have m: "map_of nt' t = Some stored" by simp
    from False Cons.prems(3)
    have "filter (\<lambda>c. local_name (el_tag c) = t) rest = c # cs" by simp
    from Cons.IH [OF m Cons.prems(2) this r] show ?thesis .
  qed
qed

lemma parse_children_absent:
  assumes "map_of nt t = None"
    and "filter (\<lambda>c. local_name (el_tag c) = t) kids = c1 # c2 # cs"
    and "\<not> isinstance_list (value_or_node (Node (child_tree c1)))"
    and "parse_children nt kids = Inr tree"
  shows "map_of tree t
    = Some (Seq (value_or_node (Node (child_tree c1))
                 # map (\<lambda>c. Node (child_tree c)) (c2 # cs)))"
  using assms
proof (induction kids arbitrary: nt)
  case Nil
  then show ?case by simp
next
  case (Cons child rest)
  obtain nt' where f: "fold_child nt (local_name (el_tag child), child_tree child) = Inr nt'"
    and p: "parse_children nt (child # rest) = parse_children nt' rest"
    using parse_children_Cons by blast
  from p Cons.prems have r: "parse_children nt' rest = Inr tree" by simp
  show ?case
  proof (cases "local_name (el_tag child) = t")
    case True
    with Cons.prems(2) have c: "child = c1"
      and cs: "filter (\<lambda>c. local_name (el_tag c) = t) rest = c2 # cs"
      by simp_all
    from fold_child_absent [of nt t "child_tree child"] Cons.prems(1) f True
    have "map_of nt' t = Some (Node (child_tree c1))"
      by (auto simp: map_of_setitem c)
    from parse_children_single [OF this Cons.prems(3) cs r] show ?thesis .
  next
    case False
    then have "t \<noteq> local_name (el_tag child)" by blast
    from fold_child_other [OF f this] Cons.prems(1)
    have m: "map_of nt' t = None" by simp
    from False Cons.prems(2)
    have "filter (\<lambda>c. local_name (el_tag c) = t) rest = c1 # c2 # cs" by simp
    from Cons.IH [OF m this Cons.prems(3) r] show ?thesis .
  qed
qed

subsection \<open>The loop over the attributes\<close>

lemma map_of_fold_attrib:
  "map_of (fold_attrib nt (key, val))
     = (map_of nt)(local_name key \<mapsto> Node (snd (namespace_split key [(''value'', Str val)])))"
  using namespace_split_fst [of key "[(''value'', Str val)]"]
  by (cases "namespace_split key [(''value'', Str val)]")
    (simp add: fold_attrib_def map_of_setitem)

lemma foldl_attrib_other:
  "\<forall>(k, v) \<in> set post. local_name k \<noteq> t \<Longrightarrow>
   map_of (foldl fold_attrib nt post) t = map_of nt t"
  by (induction post arbitrary: nt) (auto simp: map_of_fold_attrib)

lemma foldl_attrib_keys:
  "dict_contains (foldl fold_attrib nt attrib) t
     \<longleftrightarrow> dict_contains nt t \<or> t \<in> local_name ` fst ` set attrib"
  by (induction attrib arbitrary: nt)
    (auto simp: map_of_fold_attrib dict_contains_def)


subsection \<open>The keys before the children\<close>

lemma text_and_attribs_keys:
  "dict_contains (text_and_attribs txt attrib) t
     \<longleftrightarrow> (t = ''value'' \<and> (\<exists>s. txt = Some s \<and> strip s \<noteq> []))
        \<or> t \<in> local_name ` fst ` set attrib"
proof -
  have e: "strip [] = []" by (simp add: strip_def)
  have "dict_contains (text_and_attribs txt []) t
      \<longleftrightarrow> (t = ''value'' \<and> (\<exists>s. txt = Some s \<and> strip s \<noteq> []))"
    using e
    by (cases "txt") (auto simp: text_and_attribs_def DotDict_setattr_def dict_contains_def)
  moreover have "text_and_attribs txt attrib = foldl fold_attrib (text_and_attribs txt []) attrib"
    by (simp add: text_and_attribs_def)
  ultimately show ?thesis
    by (simp only: foldl_attrib_keys)
qed

subsection \<open>What the returned tree holds\<close>

inductive_cases holds_NodeE: "holds (Node d) n"
inductive_cases holds_SeqE: "holds (Seq xs) n"
inductive_cases holds_StrE: "holds (Str s) n"

lemma holds_value_or_node:
  "holds v n \<Longrightarrow> \<not> single_value (Node n) \<Longrightarrow> holds (value_or_node v) n"
proof (induction v rule: value_or_node.induct)
  case (1 d)
  show ?case
  proof (cases "single_value (Node d)")
    case True
    then obtain w where d: "d = [(''value'', w)]"
      by (auto simp: single_value_iff)
    from "1.prems"(2) True have "n \<noteq> d" by auto
    with "1.prems"(1) d have "holds w n"
      by (auto elim: holds_NodeE)
    with "1.IH" [of w] d "1.prems"(2) have "holds (value_or_node w) n"
      by (simp add: dict_len_def)
    with d show ?thesis by (simp add: dict_len_def)
  next
    case False
    then have "value_or_node (Node d) = Node d"
      by (rule value_or_node_id)
    with "1.prems"(1) show ?thesis by simp
  qed
qed simp_all

lemma append_to_single:
  "append_to (Node [(''value'', w)]) x
     = (case append_to w x of Inl e \<Rightarrow> Inl e | Inr w' \<Rightarrow> Inr (Node [(''value'', w')]))"
  by (cases "append_to w x") (simp_all add: dict_len_def)

lemma append_to_Node_ok:
  assumes "append_to (Node d) x = Inr v'"
  obtains w w' where "d = [(''value'', w)]" and "append_to w x = Inr w'"
    and "v' = Node [(''value'', w')]"
proof -
  from assms have s: "single_value (Node d)"
    by (auto simp: dict_contains_def DotDict_getattr_def split: option.splits if_splits sum.splits)
  then obtain w where d: "d = [(''value'', w)]"
    by (auto simp: single_value_iff)
  from assms have "append_to (Node [(''value'', w)]) x = Inr v'"
    by (simp only: d)
  then have "(case append_to w x of Inl e \<Rightarrow> Inl e | Inr w' \<Rightarrow> Inr (Node [(''value'', w')]))
      = Inr v'"
    by (simp only: append_to_single)
  then obtain w' where "append_to w x = Inr w'" and "v' = Node [(''value'', w')]"
    by (cases "append_to w x") auto
  with d that show ?thesis by blast
qed

lemma holds_append_old:
  "append_to v x = Inr v' \<Longrightarrow> holds v n \<Longrightarrow> \<not> single_value (Node n) \<Longrightarrow> holds v' n"
proof (induction v x arbitrary: v' rule: append_to.induct)
  case (1 xs x)
  then show ?case by (auto elim!: holds_SeqE intro: holds_item)
next
  case (2 s x)
  then show ?case by simp
next
  case (3 d x)
  from "3.prems"(1) obtain w w' where d: "d = [(''value'', w)]"
    and a: "append_to w x = Inr w'" and v': "v' = Node [(''value'', w')]"
    by (rule append_to_Node_ok)
  from d have sv: "single_value (Node d)" by (simp add: single_value_iff)
  with "3.prems"(3) have "n \<noteq> d" by auto
  with "3.prems"(2) d have "holds w n"
    by (auto elim: holds_NodeE)
  with "3.IH" [of w w'] d a "3.prems"(3) have "holds w' n"
    by (simp add: dict_len_def)
  with v' show ?case by (auto intro: holds_entry)
qed

lemma holds_append_new:
  "append_to v x = Inr v' \<Longrightarrow> holds x n \<Longrightarrow> holds v' n"
proof (induction v x arbitrary: v' rule: append_to.induct)
  case (1 xs x)
  then show ?case by (auto intro: holds_item)
next
  case (2 s x)
  then show ?case by simp
next
  case (3 d x)
  from "3.prems"(1) obtain w w' where d: "d = [(''value'', w)]"
    and a: "append_to w x = Inr w'" and v': "v' = Node [(''value'', w')]"
    by (rule append_to_Node_ok)
  with "3.IH" [of w w'] "3.prems"(2) have "holds w' n"
    by (simp add: dict_len_def)
  with v' show ?case by (auto intro: holds_entry)
qed


lemma fold_child_holds_old:
  assumes "fold_child nt (tag, tree) = Inr nt'"
    and "map_of nt key = Some v" and "holds v n" and "\<not> single_value (Node n)"
  shows "\<exists>v'. map_of nt' key = Some v' \<and> holds v' n"
proof (cases "key = tag")
  case False
  from fold_child_other [OF assms(1) False] assms(2,3) show ?thesis by simp
next
  case True
  show ?thesis
  proof (cases "isinstance_list (value_or_node v)")
    case True
    then obtain xs where "value_or_node v = Seq xs"
      by (cases "value_or_node v") auto
    from fold_child_append [of nt tag v xs tree] assms(1,2) this \<open>key = tag\<close>
    obtain v' where "nt' = dict_setitem nt tag v'" and "append_to v (Node tree) = Inr v'"
      by auto
    with holds_append_old [OF this(2) assms(3,4)] \<open>key = tag\<close> show ?thesis
      by (simp add: map_of_setitem)
  next
    case False
    from fold_child_promote [of nt tag v tree] assms(1,2) False \<open>key = tag\<close>
    have "nt' = dict_setitem (dict_pop nt tag) tag (Seq [value_or_node v, Node tree])"
      by simp
    moreover from holds_value_or_node [OF assms(3,4)]
    have "holds (Seq [value_or_node v, Node tree]) n"
      by (auto intro: holds_item)
    ultimately show ?thesis using \<open>key = tag\<close>
      by (simp add: map_of_setitem)
  qed
qed

lemma fold_child_holds_new:
  assumes "fold_child nt (tag, tree) = Inr nt'" and "holds (Node tree) n"
  shows "\<exists>v'. map_of nt' tag = Some v' \<and> holds v' n"
proof (cases "map_of nt tag")
  case None
  from fold_child_absent [OF None, of tree] assms show ?thesis
    by (auto simp: map_of_setitem)
next
  case (Some v)
  show ?thesis
  proof (cases "isinstance_list (value_or_node v)")
    case True
    then obtain xs where "value_or_node v = Seq xs"
      by (cases "value_or_node v") auto
    from fold_child_append [OF Some this, of tree] assms(1)
    obtain v' where "nt' = dict_setitem nt tag v'" and "append_to v (Node tree) = Inr v'"
      by auto
    with holds_append_new [OF this(2) assms(2)] show ?thesis
      by (simp add: map_of_setitem)
  next
    case False
    from fold_child_promote [OF Some False, of tree] assms(1)
    have "nt' = dict_setitem (dict_pop nt tag) tag (Seq [value_or_node v, Node tree])"
      by simp
    moreover from assms(2) have "holds (Seq [value_or_node v, Node tree]) n"
      by (auto intro: holds_item)
    ultimately show ?thesis
      by (simp add: map_of_setitem)
  qed
qed

lemma parse_children_holds_old:
  assumes "parse_children nt kids = Inr tree"
    and "map_of nt key = Some v" and "holds v n" and "\<not> single_value (Node n)"
  shows "\<exists>v'. map_of tree key = Some v' \<and> holds v' n"
  using assms
proof (induction kids arbitrary: nt v)
  case Nil
  then show ?case by auto
next
  case (Cons child rest)
  obtain nt' where f: "fold_child nt (local_name (el_tag child), child_tree child) = Inr nt'"
    and p: "parse_children nt (child # rest) = parse_children nt' rest"
    using parse_children_Cons by blast
  from fold_child_holds_old [OF f Cons.prems(2,3,4)]
  obtain v' where "map_of nt' key = Some v'" and "holds v' n" by blast
  from Cons.IH [OF _ this Cons.prems(4)] p Cons.prems(1) show ?case by simp
qed

lemma parse_children_holds_child:
  assumes "parse_children nt kids = Inr tree" and "c \<in> set kids"
    and "holds (Node (child_tree c)) n" and "\<not> single_value (Node n)"
  shows "\<exists>v'. map_of tree (local_name (el_tag c)) = Some v' \<and> holds v' n"
  using assms
proof (induction kids arbitrary: nt)
  case Nil
  then show ?case by simp
next
  case (Cons child rest)
  obtain nt' where f: "fold_child nt (local_name (el_tag child), child_tree child) = Inr nt'"
    and p: "parse_children nt (child # rest) = parse_children nt' rest"
    using parse_children_Cons by blast
  from p Cons.prems(1) have r: "parse_children nt' rest = Inr tree" by simp
  show ?case
  proof (cases "c = child")
    case True
    from fold_child_holds_new [OF f] Cons.prems(3) True
    obtain v' where "map_of nt' (local_name (el_tag c)) = Some v'" and "holds v' n"
      by blast
    from parse_children_holds_old [OF r this Cons.prems(4)] show ?thesis .
  next
    case False
    with Cons.prems(2) have "c \<in> set rest" by simp
    from Cons.IH [OF r this Cons.prems(3,4)] show ?thesis .
  qed
qed

lemma child_tree_lookup:
  assumes "parse_node p = Inr tree"
    and "key = ''namespace'' \<longrightarrow> search_braces (el_tag p) = None"
  shows "map_of (child_tree p) key = map_of tree key"
  using assms
  by (auto simp: child_tree_def namespace_split_def DotDict_setattr_def map_of_setitem
      split: option.splits)

lemma child_tree_namespace:
  assumes "search_braces (el_tag p) = Some (uri, name)"
  shows "map_of (child_tree p) ''namespace'' = Some (Str uri)"
proof -
  obtain tree where "parse_node p = Inr tree"
    using parse_total(1) by blast
  with assms show ?thesis
    by (simp add: child_tree_def namespace_split_def DotDict_setattr_def map_of_setitem)
qed

lemma child_holds:
  assumes "c \<in> set (el_children q)" and "holds (Node (child_tree c)) n"
    and "\<not> single_value (Node n)"
    and "\<not> (local_name (el_tag c) = ''namespace'' \<and> search_braces (el_tag q) \<noteq> None)"
  shows "holds (Node (child_tree q)) n"
proof -
  obtain tree where t: "parse_node q = Inr tree"
    using parse_total(1) by blast
  then have "parse_children (text_and_attribs (el_text q) (el_attrib q)) (el_children q) = Inr tree"
    by (cases q) simp
  from parse_children_holds_child [OF this assms(1,2,3)]
  obtain v' where m: "map_of tree (local_name (el_tag c)) = Some v'" and h: "holds v' n"
    by blast
  from assms(4) have "local_name (el_tag c) = ''namespace'' \<longrightarrow> search_braces (el_tag q) = None"
    by blast
  from child_tree_lookup [OF t this] m
  have "(local_name (el_tag c), v') \<in> set (child_tree q)"
    by (simp add: map_of_SomeD)
  then show ?thesis using h by (rule holds_entry)
qed

lemma reaches_holds:
  assumes "reaches root p" and "p = root \<or> \<not> single_value (Node (child_tree p))"
  shows "holds (Node (child_tree root)) (child_tree p)"
  using assms
proof (induction rule: reaches.induct)
  case (reaches_self e)
  show ?case by (rule holds_here)
next
  case (reaches_child c q p)
  show ?case
  proof (cases "p = q")
    case True
    then show ?thesis by (simp add: holds_here)
  next
    case False
    with reaches_child.prems have n: "\<not> single_value (Node (child_tree p))" by simp
    with reaches_child.IH have "holds (Node (child_tree c)) (child_tree p)" by simp
    from child_holds [OF reaches_child.hyps(1) this n reaches_child.hyps(3)] show ?thesis .
  qed
qed

lemma fromstring_tree:
  "ET s = Inr root \<Longrightarrow>
   fromstring ET s = Inr [(local_name (el_tag root), Node (child_tree root))]"
proof -
  assume e: "ET s = Inr root"
  obtain tree where t: "parse_node root = Inr tree"
    using parse_total(1) by blast
  from namespace_split_child [OF t] e t show ?thesis
    by (simp add: fromstring_def)
qed

lemma fromstring_holds:
  assumes "ET s = Inr root" and "reaches root p"
    and "p = root \<or> \<not> single_value (Node (child_tree p))"
  shows "\<exists>tree. fromstring ET s = Inr tree \<and> holds (Node tree) (child_tree p)"
proof -
  from reaches_holds [OF assms(2,3)]
  have "holds (Node [(local_name (el_tag root), Node (child_tree root))]) (child_tree p)"
    by (auto intro: holds_entry)
  with fromstring_tree [of ET s root] assms(1) show ?thesis by simp
qed


subsection \<open>The pattern of \<open>remove_xml_namespace\<close>\<close>

lemma strip_prefix_iff: "strip_prefix p s = Some r \<longleftrightarrow> s = p @ r"
  by (induction p s rule: strip_prefix.induct) auto

lemma match_quoted_iff:
  "match_quoted s = Some rest
     \<longleftrightarrow> (\<exists>v. v \<noteq> [] \<and> quote \<notin> set v \<and> s = CHR ''='' # quote # v @ quote # rest)"
proof
  assume m: "match_quoted s = Some rest"
  then obtain body where b: "s = [CHR ''='', quote] @ body"
    by (auto simp: match_quoted_def strip_prefix_iff split: option.splits)
  let ?v = "takeWhile (\<lambda>c. c \<noteq> quote) body"
  let ?r = "dropWhile (\<lambda>c. c \<noteq> quote) body"
  from m b have v: "?v \<noteq> []" and r: "?r \<noteq> []" and t: "rest = tl ?r"
    by (auto simp: match_quoted_def strip_prefix_iff Let_def split: option.splits if_splits)
  from r have "hd ?r = quote"
    using hd_dropWhile [of "\<lambda>c. c \<noteq> quote" body] by simp
  with r t have "?r = quote # rest"
    by (cases ?r) auto
  then have "body = ?v @ quote # rest"
    using takeWhile_dropWhile_id [of "\<lambda>c. c \<noteq> quote" body] by simp
  moreover have "quote \<notin> set ?v"
    by (auto dest: set_takeWhileD)
  ultimately show "\<exists>v. v \<noteq> [] \<and> quote \<notin> set v \<and> s = CHR ''='' # quote # v @ quote # rest"
    using v b by auto
next
  assume "\<exists>v. v \<noteq> [] \<and> quote \<notin> set v \<and> s = CHR ''='' # quote # v @ quote # rest"
  then obtain v where v: "v \<noteq> []" and q: "quote \<notin> set v"
    and s: "s = CHR ''='' # quote # v @ quote # rest"
    by blast
  from q have "takeWhile (\<lambda>c. c \<noteq> quote) (v @ quote # rest) = v"
    by (induction v) auto
  moreover from q have "dropWhile (\<lambda>c. c \<noteq> quote) (v @ quote # rest) = quote # rest"
    by (induction v) auto
  ultimately show "match_quoted s = Some rest"
    using v s by (simp add: match_quoted_def)
qed

lemma match_xmlns_iff:
  "match_xmlns s = Some rest
     \<longleftrightarrow> (\<exists>v. v \<noteq> [] \<and> quote \<notin> set v
            \<and> (s = '' xmlns='' @ quote # v @ quote # rest
               \<or> s = '' xmlns:ns2='' @ quote # v @ quote # rest))"
proof
  assume m: "match_xmlns s = Some rest"
  then obtain r where r: "s = '' xmlns'' @ r"
    by (auto simp: match_xmlns_def strip_prefix_iff split: option.splits)
  with m have "(\<exists>r1. r = '':ns2'' @ r1 \<and> match_quoted r1 = Some rest) \<or> match_quoted r = Some rest"
    by (auto simp: match_xmlns_def strip_prefix_iff split: option.splits)
  with r show "\<exists>v. v \<noteq> [] \<and> quote \<notin> set v
            \<and> (s = '' xmlns='' @ quote # v @ quote # rest
               \<or> s = '' xmlns:ns2='' @ quote # v @ quote # rest)"
    by (auto simp: match_quoted_iff)
next
  assume "\<exists>v. v \<noteq> [] \<and> quote \<notin> set v
            \<and> (s = '' xmlns='' @ quote # v @ quote # rest
               \<or> s = '' xmlns:ns2='' @ quote # v @ quote # rest)"
  then obtain v where v: "v \<noteq> []" "quote \<notin> set v"
    and s: "s = '' xmlns='' @ quote # v @ quote # rest
               \<or> s = '' xmlns:ns2='' @ quote # v @ quote # rest"
    by blast
  from v have q: "match_quoted (CHR ''='' # quote # v @ quote # rest) = Some rest"
    by (auto simp: match_quoted_iff)
  from s show "match_xmlns s = Some rest"
  proof
    assume "s = '' xmlns='' @ quote # v @ quote # rest"
    with q show ?thesis by (simp add: match_xmlns_def)
  next
    assume "s = '' xmlns:ns2='' @ quote # v @ quote # rest"
    with q show ?thesis by (simp add: match_xmlns_def)
  qed
qed

lemma match_namespace_iff:
  "match_namespace s = Some rest \<longleftrightarrow> (\<exists>m. ns_token m \<and> s = m @ rest)"
proof
  assume m: "match_namespace s = Some rest"
  then have "match_xmlns s = Some rest \<or> s = ''ns2:'' @ rest \<or> s = ''xml:'' @ rest"
    by (auto simp: match_namespace_def strip_prefix_iff split: option.splits)
  then show "\<exists>m. ns_token m \<and> s = m @ rest"
  proof (elim disjE)
    assume "match_xmlns s = Some rest"
    then obtain v where v: "v \<noteq> []" and q: "quote \<notin> set v"
      and d: "s = '' xmlns='' @ quote # v @ quote # rest
               \<or> s = '' xmlns:ns2='' @ quote # v @ quote # rest"
      by (auto simp: match_xmlns_iff)
    from d show ?thesis
    proof
      assume "s = '' xmlns='' @ quote # v @ quote # rest"
      then have "s = ('' xmlns='' @ quote # v @ [quote]) @ rest" by simp
      with token_xmlns [OF v q] show ?thesis by blast
    next
      assume "s = '' xmlns:ns2='' @ quote # v @ quote # rest"
      then have "s = ('' xmlns:ns2='' @ quote # v @ [quote]) @ rest" by simp
      with token_xmlns_ns2 [OF v q] show ?thesis by blast
    qed
  next
    assume "s = ''ns2:'' @ rest"
    with token_ns2 show ?thesis by blast
  next
    assume "s = ''xml:'' @ rest"
    with token_xml show ?thesis by blast
  qed
next
  assume "\<exists>m. ns_token m \<and> s = m @ rest"
  then obtain m where t: "ns_token m" and s: "s = m @ rest" by blast
  from t show "match_namespace s = Some rest"
  proof cases
    case (token_xmlns v)
    with s have "match_xmlns s = Some rest"
      by (auto simp: match_xmlns_iff)
    then show ?thesis by (simp add: match_namespace_def)
  next
    case (token_xmlns_ns2 v)
    with s have "match_xmlns s = Some rest"
      by (auto simp: match_xmlns_iff)
    then show ?thesis by (simp add: match_namespace_def)
  next
    case token_ns2
    with s show ?thesis
      by (simp add: match_namespace_def match_xmlns_def)
  next
    case token_xml
    with s show ?thesis
      by (simp add: match_namespace_def match_xmlns_def)
  qed
qed

lemma ns_token_not_empty: "ns_token m \<Longrightarrow> m \<noteq> []"
  by (auto elim: ns_token.cases)

lemma remove_token:
  assumes "ns_token m"
  shows "remove_xml_namespace (m @ rest) = remove_xml_namespace rest"
proof -
  from assms obtain c cs where c: "m @ rest = c # cs"
    by (cases "m @ rest") (auto dest: ns_token_not_empty)
  from assms have "match_namespace (m @ rest) = Some rest"
    by (auto simp: match_namespace_iff)
  with c show ?thesis by simp
qed

lemma remove_other:
  assumes "\<forall>m rest. ns_token m \<longrightarrow> c # cs \<noteq> m @ rest"
  shows "remove_xml_namespace (c # cs) = c # remove_xml_namespace cs"
proof -
  from assms have "match_namespace (c # cs) = None"
    using match_namespace_iff [of "c # cs"] by (cases "match_namespace (c # cs)") auto
  then show ?thesis by simp
qed


subsection \<open>The claims on the parser\<close>

lemmas eval_parser =
  child_tree_def text_and_attribs_def fold_attrib_def fold_child_def namespace_split_def
  match_braces_def dict_contains_def DotDict_getitem_def dict_getitem_def dict_pop_def
  dict_len_def DotDict_setattr_def strip_def isspace_def local_name_def newline_def

text \<open>
  C2, as the code has it. Take an element that the returned tree holds as a node: the
  root, or an element whose node is not one with the single key \<open>value\<close>, reached from
  the root as \<open>reaches\<close> says. Let a tag occur two times or more among its children,
  and let it be no key of the node otherwise: it is the local name of no attribute, it
  is not \<open>value\<close> when the element has text that is not blank, and it is not
  \<open>namespace\<close> when the element's own tag has a \<open>{uri}\<close> part. When the node of the first
  occurrence is not one with the single key \<open>value\<close>, the node holds under the tag a
  sequence with one item per occurrence, in document order: the nodes of the occurrences,
  the first promoted to a list at the second occurrence and the later ones appended.
\<close>

theorem repeated_tag_sequence:
  assumes "ET s = Inr root" and "reaches root p"
    and "p = root \<or> \<not> single_value (Node (child_tree p))"
    and "t \<notin> local_name ` fst ` set (el_attrib p)"
    and "t = ''value'' \<longrightarrow> (\<forall>tx. el_text p = Some tx \<longrightarrow> strip tx = [])"
    and "t = ''namespace'' \<longrightarrow> search_braces (el_tag p) = None"
    and "filter (\<lambda>c. local_name (el_tag c) = t) (el_children p) = c1 # c2 # cs"
    and "\<not> single_value (Node (child_tree c1))"
  shows "\<exists>tree ys. fromstring ET s = Inr tree
    \<and> holds (Node tree) (child_tree p)
    \<and> dict_getitem (child_tree p) t = Inr (Seq ys)
    \<and> DotDict_getitem (child_tree p) t = Inr (Seq ys)
    \<and> ys = map (\<lambda>c. Node (child_tree c)) (c1 # c2 # cs)
    \<and> length ys = length (filter (\<lambda>c. local_name (el_tag c) = t) (el_children p))"
proof -
  from fromstring_holds [of ET s root p] assms(1,2,3)
  obtain tree where f: "fromstring ET s = Inr tree" and h: "holds (Node tree) (child_tree p)"
    by blast
  obtain nt where n: "parse_node p = Inr nt"
    using parse_total(1) by blast
  then have c: "parse_children (text_and_attribs (el_text p) (el_attrib p)) (el_children p) = Inr nt"
    by (cases p) simp
  from assms(4,5) have "\<not> dict_contains (text_and_attribs (el_text p) (el_attrib p)) t"
    by (auto simp: text_and_attribs_keys)
  then have a: "map_of (text_and_attribs (el_text p) (el_attrib p)) t = None"
    by (simp add: dict_contains_def)
  from assms(8) have v: "value_or_node (Node (child_tree c1)) = Node (child_tree c1)"
    by (rule value_or_node_id)
  then have "\<not> isinstance_list (value_or_node (Node (child_tree c1)))"
    by simp
  from parse_children_absent [OF a assms(7) this c] v
  have "map_of nt t = Some (Seq (map (\<lambda>c. Node (child_tree c)) (c1 # c2 # cs)))"
    by simp
  with child_tree_lookup [OF n assms(6)]
  have "map_of (child_tree p) t = Some (Seq (map (\<lambda>c. Node (child_tree c)) (c1 # c2 # cs)))"
    by simp
  with f h assms(7) show ?thesis
    by (simp add: dict_getitem_def DotDict_getitem_def)
qed

theorem repeated_tag_sequence_witness:
  \<open>\<exists>tree. fromstring ET_examples ''<a><i k="1"><b x="1"/><c/><b>2</b><b x="y"/></i></a>''
        = Inr tree
    \<and> holds (Node tree)
        [(''k'', Node [(''value'', Str ''1'')]), (''c'', Node []),
         (''b'', Seq [Node [(''x'', Node [(''value'', Str ''1'')])],
                      Node [(''value'', Str ''2'')],
                      Node [(''x'', Node [(''value'', Str ''y'')])]])]
    \<and> DotDict_getitem
        [(''k'', Node [(''value'', Str ''1'')]), (''c'', Node []),
         (''b'', Seq [Node [(''x'', Node [(''value'', Str ''1'')])],
                      Node [(''value'', Str ''2'')],
                      Node [(''x'', Node [(''value'', Str ''y'')])]])] ''b''
        = Inr (Seq [Node [(''x'', Node [(''value'', Str ''1'')])],
                    Node [(''value'', Str ''2'')],
                    Node [(''x'', Node [(''value'', Str ''y'')])]])\<close>
proof -
  let ?c1 = "Element ''b'' [(''x'', ''1'')] None []"
  let ?c2 = "Element ''b'' [] (Some ''2'') []"
  let ?c3 = "Element ''b'' [(''x'', ''y'')] None []"
  let ?p = "Element ''i'' [(''k'', ''1'')] None [?c1, Element ''c'' [] None [], ?c2, ?c3]"
  let ?root = "Element ''a'' [] None [?p]"
  have t1: "child_tree ?c1 = [(''x'', Node [(''value'', Str ''1'')])]"
    by (simp add: eval_parser)
  have t2: "child_tree ?c2 = [(''value'', Str ''2'')]"
    by (simp add: eval_parser)
  have t3: "child_tree ?c3 = [(''x'', Node [(''value'', Str ''y'')])]"
    by (simp add: eval_parser)
  have tp: "child_tree ?p
      = [(''k'', Node [(''value'', Str ''1'')]), (''c'', Node []),
         (''b'', Seq [Node [(''x'', Node [(''value'', Str ''1'')])],
                      Node [(''value'', Str ''2'')],
                      Node [(''x'', Node [(''value'', Str ''y'')])]])]"
    by (simp add: eval_parser)
  have h1: \<open>ET_examples ''<a><i k="1"><b x="1"/><c/><b>2</b><b x="y"/></i></a>'' = Inr ?root\<close>
    by (simp add: ET_examples_def)
  have "\<not> (local_name (el_tag ?p) = ''namespace'' \<and> search_braces (el_tag ?root) \<noteq> None)"
    by (simp add: eval_parser)
  with reaches_child [of ?p ?root ?p] reaches_self [of ?p]
  have h2: "reaches ?root ?p" by simp
  have h3: "?p = ?root \<or> \<not> single_value (Node (child_tree ?p))"
    by (simp add: tp dict_len_def)
  have h4: "''b'' \<notin> local_name ` fst ` set (el_attrib ?p)"
    by (simp add: eval_parser)
  have h5: "''b'' = ''value'' \<longrightarrow> (\<forall>tx. el_text ?p = Some tx \<longrightarrow> strip tx = [])"
    by simp
  have h6: "''b'' = ''namespace'' \<longrightarrow> search_braces (el_tag ?p) = None"
    by simp
  have h7: "filter (\<lambda>c. local_name (el_tag c) = ''b'') (el_children ?p) = ?c1 # ?c2 # [?c3]"
    by (simp add: eval_parser)
  have h8: "\<not> single_value (Node (child_tree ?c1))"
    by (simp add: t1 dict_contains_def)
  from repeated_tag_sequence [of ET_examples _ ?root ?p "''b''" ?c1 ?c2 "[?c3]",
      OF h1 h2 h3 h4 h5 h6 h7 h8]
  show ?thesis
    by (auto simp: tp t1 t2 t3)
qed

text \<open>
  C2 as stated fails. In \<open><a b="x"><b/><b/></a>\<close> the tag \<open>b\<close> occurs twice among the
  children of \<open>a\<close>, and the sequence under \<open>b\<close> has three items, the first of them the
  value of the attribute \<open>b\<close>. Under a root \<open>{urn:r}a\<close> two children \<open>namespace\<close> leave
  the string \<open>urn:r\<close> under \<open>namespace\<close>. In \<open><a><b>1</b><b>2</b></a>\<close> the first item is
  the string \<open>1\<close>, not the node \<open>{"value": "1"}\<close> stored for the first occurrence. In
  \<open><a><b><value/><value/></b><b/></a>\<close> the node of the first \<open>b\<close> has two items
  under \<open>value\<close> when \<open>_parse_node\<close> returns it and three in the tree.
\<close>

theorem repeated_tag_collision_counterexample:
  "parse_node (Element ''a'' [(''b'', ''x'')] None
       [Element ''b'' [] None [], Element ''b'' [] None []])
     = Inr [(''b'', Seq [Str ''x'', Node [], Node []])]
   \<and> DotDict_getitem [(''b'', Seq [Str ''x'', Node [], Node []])] ''b''
     = Inr (Seq [Str ''x'', Node [], Node []])
   \<and> length (filter (\<lambda>c. el_tag c = ''b'')
       [Element ''b'' [] None [], Element ''b'' [] None []]) = 2
   \<and> length [Str ''x'', Node [], Node []] \<noteq> (2::nat)
   \<and> child_tree (Element ''{urn:r}a'' [] None
       [Element ''namespace'' [] None [], Element ''namespace'' [] None []])
     = [(''namespace'', Str ''urn:r'')]
   \<and> child_tree (Element ''b'' [] (Some ''1'') []) = [(''value'', Str ''1'')]
   \<and> parse_node (Element ''a'' [] None
       [Element ''b'' [] (Some ''1'') [], Element ''b'' [] (Some ''2'') []])
     = Inr [(''b'', Seq [Str ''1'', Node [(''value'', Str ''2'')]])]
   \<and> parse_node (Element ''b'' [] None
       [Element ''value'' [] None [], Element ''value'' [] None []])
     = Inr [(''value'', Seq [Node [], Node []])]
   \<and> parse_node (Element ''a'' [] None
       [Element ''b'' [] None [Element ''value'' [] None [], Element ''value'' [] None []],
        Element ''b'' [] None []])
     = Inr [(''b'', Node [(''value'', Seq [Node [], Node [], Node []])])]"
  by (simp add: eval_parser)


text \<open>
  C3, as the code has it. Take an element that the returned tree holds as a node, as for
  C2, and an attribute of it whose local name is the local name of no later attribute
  and of no child tag. Under the local name the node holds a \<open>DotDict\<close> that wraps the
  value under the key \<open>value\<close>, never the plain string of the value. For a name without
  a \<open>{uri}\<close> part that is the whole \<open>DotDict\<close>, and key access reads the plain string
  back; for a name \<open>{uri}local\<close> the \<open>DotDict\<close> has the key \<open>namespace\<close> as well, and
  key access returns the \<open>DotDict\<close>. One case is apart: an attribute of local name
  \<open>namespace\<close> on an element whose own tag is \<open>{uri}local\<close> is overwritten by
  \<open>_namespace_split\<close> of the tag, and the node holds the string \<open>uri\<close> under \<open>namespace\<close>.
\<close>

theorem attribute_stored_wrapped:
  assumes "ET s = Inr root" and "reaches root p"
    and "p = root \<or> \<not> single_value (Node (child_tree p))"
    and "el_attrib p = pre @ (key, val) # post"
    and "\<forall>(k, v) \<in> set post. local_name k \<noteq> local_name key"
    and "\<forall>c \<in> set (el_children p). local_name (el_tag c) \<noteq> local_name key"
  shows "\<exists>tree. fromstring ET s = Inr tree
    \<and> holds (Node tree) (child_tree p)
    \<and> (\<forall>uri name.
          local_name key = ''namespace'' \<and> search_braces (el_tag p) = Some (uri, name) \<longrightarrow>
          dict_getitem (child_tree p) ''namespace'' = Inr (Str uri))
    \<and> ((local_name key = ''namespace'' \<longrightarrow> search_braces (el_tag p) = None) \<longrightarrow>
          dict_getitem (child_tree p) (local_name key) \<noteq> Inr (Str val)
          \<and> (search_braces key = None \<longrightarrow>
                local_name key = key
                \<and> dict_getitem (child_tree p) key = Inr (Node [(''value'', Str val)])
                \<and> DotDict_getitem (child_tree p) key = Inr (Str val))
          \<and> (\<forall>ns name. search_braces key = Some (ns, name) \<longrightarrow>
                local_name key = name
                \<and> dict_getitem (child_tree p) name
                    = Inr (Node [(''value'', Str val), (''namespace'', Str ns)])
                \<and> DotDict_getitem (child_tree p) name
                    = Inr (Node [(''value'', Str val), (''namespace'', Str ns)])))"
proof -
  from fromstring_holds [of ET s root p] assms(1,2,3)
  obtain tree where f: "fromstring ET s = Inr tree" and h: "holds (Node tree) (child_tree p)"
    by blast
  obtain nt where n: "parse_node p = Inr nt"
    using parse_total(1) by blast
  then have c: "parse_children (text_and_attribs (el_text p) (el_attrib p)) (el_children p) = Inr nt"
    by (cases p) simp
  let ?stored = "Node (snd (namespace_split key [(''value'', Str val)]))"
  have "text_and_attribs (el_text p) (el_attrib p)
      = foldl fold_attrib (fold_attrib (foldl fold_attrib
          (text_and_attribs (el_text p) []) pre) (key, val)) post"
    by (simp add: text_and_attribs_def assms(4))
  then have "map_of (text_and_attribs (el_text p) (el_attrib p)) (local_name key) = Some ?stored"
    using foldl_attrib_other [OF assms(5)] by (simp add: map_of_fold_attrib)
  with parse_children_other [OF assms(6) c]
  have m: "map_of nt (local_name key) = Some ?stored"
    by simp
  have a: "dict_getitem (child_tree p) ''namespace'' = Inr (Str uri)"
    if "search_braces (el_tag p) = Some (uri, name)" for uri name
    using child_tree_namespace [OF that] by (simp add: dict_getitem_def)
  have b: "map_of (child_tree p) (local_name key) = Some ?stored"
    if "local_name key = ''namespace'' \<longrightarrow> search_braces (el_tag p) = None"
    using child_tree_lookup [OF n that] m by simp
  have k0: "search_braces key = None \<Longrightarrow> local_name key = key
      \<and> ?stored = Node [(''value'', Str val)]"
    by (simp add: local_name_def namespace_split_def)
  have k1: "search_braces key = Some (ns, name) \<Longrightarrow> local_name key = name
      \<and> ?stored = Node [(''value'', Str val), (''namespace'', Str ns)]" for ns name
    by (simp add: local_name_def namespace_split_def DotDict_setattr_def)
  from f h a b k0 k1 show ?thesis
    by (auto simp: dict_getitem_def DotDict_getitem_def dict_len_def)
qed

theorem attribute_stored_wrapped_witness:
  \<open>\<exists>tree. fromstring ET_examples ''<p:a xmlns:p="urn:r" namespace="v" k="w"/>'' = Inr tree
    \<and> holds (Node tree) [(''namespace'', Str ''urn:r''), (''k'', Node [(''value'', Str ''w'')])]
    \<and> dict_getitem [(''namespace'', Str ''urn:r''), (''k'', Node [(''value'', Str ''w'')])] ''k''
        = Inr (Node [(''value'', Str ''w'')])
    \<and> DotDict_getitem [(''namespace'', Str ''urn:r''), (''k'', Node [(''value'', Str ''w'')])] ''k''
        = Inr (Str ''w'')
    \<and> dict_getitem [(''namespace'', Str ''urn:r''), (''k'', Node [(''value'', Str ''w'')])]
        ''namespace'' = Inr (Str ''urn:r'')\<close>
proof -
  let ?root = "Element ''{urn:r}a'' [(''namespace'', ''v''), (''k'', ''w'')] None []"
  have tp: "child_tree ?root
      = [(''namespace'', Str ''urn:r''), (''k'', Node [(''value'', Str ''w'')])]"
    by (simp add: eval_parser)
  have l: "local_name ''k'' = ''k''" "local_name ''namespace'' = ''namespace''"
    by (simp_all add: eval_parser)
  have sk: "search_braces ''k'' = None"
    by (simp add: match_braces_def)
  have st: "search_braces (el_tag ?root) = Some (''urn:r'', ''a'')"
    by (simp add: match_braces_def newline_def)
  have h1: \<open>ET_examples ''<p:a xmlns:p="urn:r" namespace="v" k="w"/>'' = Inr ?root\<close>
    by (simp add: ET_examples_def)
  have h2: "reaches ?root ?root" by (rule reaches_self)
  have h3: "?root = ?root \<or> \<not> single_value (Node (child_tree ?root))" by simp
  have h4: "el_attrib ?root = [(''namespace'', ''v'')] @ (''k'', ''w'') # []" by simp
  have h5: "\<forall>(k, v) \<in> set []. local_name k \<noteq> local_name ''k''" by simp
  have h6: "\<forall>c \<in> set (el_children ?root). local_name (el_tag c) \<noteq> local_name ''k''" by simp
  have g4: "el_attrib ?root = [] @ (''namespace'', ''v'') # [(''k'', ''w'')]" by simp
  have g5: "\<forall>(k, v) \<in> set [(''k'', ''w'')]. local_name k \<noteq> local_name ''namespace''"
    by (simp add: l)
  have g6: "\<forall>c \<in> set (el_children ?root). local_name (el_tag c) \<noteq> local_name ''namespace''"
    by simp
  from attribute_stored_wrapped [of ET_examples _ ?root ?root "[(''namespace'', ''v'')]"
      "''k''" "''w''" "[]", OF h1 h2 h3 h4 h5 h6] sk l
  have a: \<open>\<exists>tree. fromstring ET_examples ''<p:a xmlns:p="urn:r" namespace="v" k="w"/>'' = Inr tree
    \<and> holds (Node tree) (child_tree ?root)
    \<and> dict_getitem (child_tree ?root) ''k'' = Inr (Node [(''value'', Str ''w'')])
    \<and> DotDict_getitem (child_tree ?root) ''k'' = Inr (Str ''w'')\<close>
    by auto
  from attribute_stored_wrapped [of ET_examples _ ?root ?root "[]"
      "''namespace''" "''v''" "[(''k'', ''w'')]", OF h1 h2 h3 g4 g5 g6] st l
  have b: "dict_getitem (child_tree ?root) ''namespace'' = Inr (Str ''urn:r'')"
    by blast
  from a b show ?thesis
    by (auto simp only: tp)
qed

text \<open>
  C3 as stated fails: for \<open><a k="v"/>\<close> the value stored under \<open>k\<close> is the \<open>DotDict\<close>
  \<open>{"value": "v"}\<close>, not the string \<open>"v"\<close>. For the root \<open>{urn:r}a\<close> with the attribute
  \<open>namespace="v"\<close> the node holds the string \<open>urn:r\<close> under \<open>namespace\<close>. In
  \<open><a><b value="v"/><b/></a>\<close> the tree holds no node for the first \<open>b\<close>: the list under
  \<open>b\<close> starts with the string \<open>v\<close>.
\<close>

theorem attribute_plain_string_counterexample:
  "parse_node (Element ''a'' [(''k'', ''v'')] None []) = Inr [(''k'', Node [(''value'', Str ''v'')])]
   \<and> dict_getitem [(''k'', Node [(''value'', Str ''v'')])] ''k'' = Inr (Node [(''value'', Str ''v'')])
   \<and> dict_getitem [(''k'', Node [(''value'', Str ''v'')])] ''k'' \<noteq> Inr (Str ''v'')
   \<and> child_tree (Element ''{urn:r}a'' [(''namespace'', ''v'')] None [])
     = [(''namespace'', Str ''urn:r'')]
   \<and> child_tree (Element ''b'' [(''value'', ''v'')] None [])
     = [(''value'', Node [(''value'', Str ''v'')])]
   \<and> parse_node (Element ''a'' [] None
       [Element ''b'' [(''value'', ''v'')] None [], Element ''b'' [] None []])
     = Inr [(''b'', Seq [Str ''v'', Node []])]"
  by (simp add: eval_parser)

text \<open>
  C7, as the code has it. Stripped of its namespaces, the document
  \<open><a xmlns="urn:x"><ns2:b>1</ns2:b></a>\<close> is the text \<open><a><b>1</b></a>\<close>, and for a
  parser that reads this text as the element \<open>a\<close> with the child \<open>b\<close> of text \<open>1\<close>,
  \<open>fromstring\<close> gives for both the tree \<open>{"a": {"b": {"value": "1"}}}\<close>. What the
  stripping removes is what its pattern matches where the scan from left to right meets
  it, on closing tags as elsewhere: a declaration \<open>xmlns="v"\<close> or \<open>xmlns:ns2="v"\<close>
  after a space, and the literal prefixes \<open>ns2:\<close> and \<open>xml:\<close>. Every other character is
  kept, so that a declaration of another form stays in the text.
\<close>

theorem namespace_strip_then_parse:
  assumes "ET ''<a><b>1</b></a>'' = Inr (Element ''a'' [] None [Element ''b'' [] (Some ''1'') []])"
  shows \<open>remove_xml_namespace ''<a xmlns="urn:x"><ns2:b>1</ns2:b></a>'' = ''<a><b>1</b></a>''
    \<and> fromstring ET (remove_xml_namespace ''<a xmlns="urn:x"><ns2:b>1</ns2:b></a>'')
        = Inr [(''a'', Node [(''b'', Node [(''value'', Str ''1'')])])]
    \<and> fromstring ET ''<a><b>1</b></a>''
        = Inr [(''a'', Node [(''b'', Node [(''value'', Str ''1'')])])]
    \<and> remove_xml_namespace ''<a xml:lang="en" xmlns:ns2="urn:y"><ns2:b/></a>''
        = ''<a lang="en"><b/></a>''
    \<and> (\<forall>m rest. ns_token m \<longrightarrow>
          remove_xml_namespace (m @ rest) = remove_xml_namespace rest)
    \<and> (\<forall>c cs. (\<forall>m rest. ns_token m \<longrightarrow> c # cs \<noteq> m @ rest) \<longrightarrow>
          remove_xml_namespace (c # cs) = c # remove_xml_namespace cs)
    \<and> (\<forall>s rest. match_namespace s = Some rest \<longleftrightarrow> (\<exists>m. ns_token m \<and> s = m @ rest))\<close>
proof -
  have r: \<open>remove_xml_namespace ''<a xmlns="urn:x"><ns2:b>1</ns2:b></a>'' = ''<a><b>1</b></a>''\<close>
    by (simp add: match_namespace_def match_xmlns_def match_quoted_def quote_def)
  have x: \<open>remove_xml_namespace ''<a xml:lang="en" xmlns:ns2="urn:y"><ns2:b/></a>''
       = ''<a lang="en"><b/></a>''\<close>
    by (simp add: match_namespace_def match_xmlns_def match_quoted_def quote_def)
  have t: "child_tree (Element ''a'' [] None [Element ''b'' [] (Some ''1'') []])
      = [(''b'', Node [(''value'', Str ''1'')])]"
    by (simp add: eval_parser)
  have l: "local_name ''a'' = ''a''"
    by (simp add: eval_parser)
  from fromstring_tree [of ET "''<a><b>1</b></a>''"] assms
  have f: "fromstring ET ''<a><b>1</b></a>''
      = Inr [(''a'', Node [(''b'', Node [(''value'', Str ''1'')])])]"
    by (simp add: t l)
  from r x f show ?thesis
    using remove_token remove_other match_namespace_iff by simp
qed

theorem namespace_strip_then_parse_witness:
  \<open>fromstring ET_examples (remove_xml_namespace ''<a xmlns="urn:x"><ns2:b>1</ns2:b></a>'')
     = Inr [(''a'', Node [(''b'', Node [(''value'', Str ''1'')])])]
   \<and> fromstring ET_examples ''<a><b>1</b></a>''
     = Inr [(''a'', Node [(''b'', Node [(''value'', Str ''1'')])])]\<close>
proof -
  have h: "ET_examples ''<a><b>1</b></a>''
      = Inr (Element ''a'' [] None [Element ''b'' [] (Some ''1'') []])"
    by (simp add: ET_examples_def)
  from namespace_strip_then_parse [of ET_examples, OF h] show ?thesis by blast
qed

text \<open>
  C7 as stated fails beyond these forms: the declaration \<open>xmlns:p\<close> and the prefix \<open>p:\<close>
  of \<open><p:a xmlns:p="urn:x"><p:b>1</p:b></p:a>\<close> are left in the text, and the tree has
  the keys \<open>namespace\<close> that the tree of \<open><a><b>1</b></a>\<close> has not. A declaration
  with an empty value, \<open>xmlns=""\<close>, is left in the text as well.
\<close>

theorem namespace_other_prefix_counterexample:
  \<open>remove_xml_namespace ''<p:a xmlns:p="urn:x"><p:b>1</p:b></p:a>''
     = ''<p:a xmlns:p="urn:x"><p:b>1</p:b></p:a>''
   \<and> fromstring ET_examples (remove_xml_namespace ''<p:a xmlns:p="urn:x"><p:b>1</p:b></p:a>'')
     = Inr [(''a'', Node [(''b'', Node [(''value'', Str ''1''), (''namespace'', Str ''urn:x'')]),
                          (''namespace'', Str ''urn:x'')])]
   \<and> fromstring ET_examples ''<a><b>1</b></a>''
     = Inr [(''a'', Node [(''b'', Node [(''value'', Str ''1'')])])]
   \<and> fromstring ET_examples (remove_xml_namespace ''<p:a xmlns:p="urn:x"><p:b>1</p:b></p:a>'')
     \<noteq> fromstring ET_examples ''<a><b>1</b></a>''
   \<and> remove_xml_namespace ''<a xmlns=""><b>1</b></a>'' = ''<a xmlns=""><b>1</b></a>''\<close>
proof -
  have e: \<open>remove_xml_namespace ''<a xmlns=""><b>1</b></a>'' = ''<a xmlns=""><b>1</b></a>''\<close>
    by (simp add: match_namespace_def match_xmlns_def match_quoted_def quote_def)
  have r: \<open>remove_xml_namespace ''<p:a xmlns:p="urn:x"><p:b>1</p:b></p:a>''
     = ''<p:a xmlns:p="urn:x"><p:b>1</p:b></p:a>''\<close>
    by (simp add: match_namespace_def match_xmlns_def match_quoted_def quote_def)
  have a: \<open>fromstring ET_examples ''<p:a xmlns:p="urn:x"><p:b>1</p:b></p:a>''
     = Inr [(''a'', Node [(''b'', Node [(''value'', Str ''1''), (''namespace'', Str ''urn:x'')]),
                          (''namespace'', Str ''urn:x'')])]\<close>
    by (simp add: fromstring_def ET_examples_def eval_parser)
  have b: "fromstring ET_examples ''<a><b>1</b></a>''
     = Inr [(''a'', Node [(''b'', Node [(''value'', Str ''1'')])])]"
    by (simp add: fromstring_def ET_examples_def eval_parser)
  from r a b e show ?thesis by simp
qed

end
